theory Spec2Isabelle
  imports Complex_Main "HOL-Library.Log_Nat"
begin

section \<open>Python values used by the frame pipeline\<close>

text \<open>
  The sources under \<^verbatim>\<open>src/v2i\<close> compute with Python's unbounded integers and with
  Python floats, which are IEEE-754 binary64 numbers.  An integer is an \<^typ>\<open>int\<close>.  A finite
  float is represented by the rational number it denotes; the two infinities and
  not-a-number are separate constructors.  The sign of a zero is not represented: no
  comparison and no conversion to an integer in the modelled code can observe it.
  Every exception the modelled code can raise is a value of \<open>py_error\<close>, and a function
  that can raise returns \<open>py_error + 'a\<close>.
\<close>

datatype py_error = ValueError | OverflowError | ZeroDivisionError | RuntimeError

datatype pyfloat = Fin rat | PInf | NInf | NaN

subsection \<open>Rounding to binary64\<close>

text \<open>
  \<open>binade x\<close> is the exponent \<open>e\<close> with \<open>2^e \<le> x < 2^(e+1)\<close> of a positive rational.
  A binary64 number in that binade is a multiple of \<open>2^(e - 52)\<close>; below the smallest
  normal number \<open>2^(-1022)\<close> the spacing stays at \<open>2^(-1074)\<close>.  Rounding is to the nearest
  such multiple, a tie going to the even one.
\<close>

definition binade :: "rat \<Rightarrow> int" where
  "binade x = (if 1 \<le> x then bitlen \<lfloor>x\<rfloor> - 1 else - bitlen (\<lceil>1 / x\<rceil> - 1))"

definition ulp_exp :: "rat \<Rightarrow> int" where
  "ulp_exp x = max (binade x) (- 1022) - 52"

definition round_half_even :: "rat \<Rightarrow> int" where
  "round_half_even y =
     (let f = \<lfloor>y\<rfloor>; d = y - of_int f
      in if d < 1 / 2 then f
         else if 1 / 2 < d then f + 1
         else if even f then f else f + 1)"

definition round_binary64 :: "rat \<Rightarrow> rat" where
  "round_binary64 x =
     (if x = 0 then 0
      else let g = power_int 2 (ulp_exp \<bar>x\<bar>)
           in sgn x * (of_int (round_half_even (\<bar>x\<bar> / g)) * g))"

definition overflows :: "rat \<Rightarrow> bool" where
  "overflows r = (2 ^ 1024 \<le> \<bar>r\<bar>)"

text \<open>The result of a float operation whose exact value is \<open>x\<close>: overflow gives an infinity.\<close>

definition to_pyfloat :: "rat \<Rightarrow> pyfloat" where
  "to_pyfloat x =
     (let r = round_binary64 x
      in if overflows r then (if 0 < r then PInf else NInf) else Fin r)"

subsection \<open>The float operations of the sources\<close>

text \<open>\<^verbatim>\<open>float(i)\<close> of an integer: \<^verbatim>\<open>OverflowError\<close> when the integer is too large.\<close>

definition py_float_of_int :: "int \<Rightarrow> py_error + pyfloat" where
  "py_float_of_int i =
     (let r = round_binary64 (of_int i)
      in if overflows r then Inl OverflowError else Inr (Fin r))"

text \<open>
  \<^verbatim>\<open>a / b\<close> of two integers: the correctly rounded quotient, \<^verbatim>\<open>ZeroDivisionError\<close> for a
  zero divisor, \<^verbatim>\<open>OverflowError\<close> when the quotient is too large for a float.
\<close>

definition py_int_truediv :: "int \<Rightarrow> int \<Rightarrow> py_error + pyfloat" where
  "py_int_truediv a b =
     (if b = 0 then Inl ZeroDivisionError
      else let r = round_binary64 (of_int a / of_int b)
           in if overflows r then Inl OverflowError else Inr (Fin r))"

text \<open>\<^verbatim>\<open>x * y\<close> of two floats; it never raises.\<close>

fun py_float_mul :: "pyfloat \<Rightarrow> pyfloat \<Rightarrow> pyfloat" where
  "py_float_mul NaN _ = NaN"
| "py_float_mul _ NaN = NaN"
| "py_float_mul (Fin a) (Fin b) = to_pyfloat (a * b)"
| "py_float_mul (Fin a) PInf = (if a = 0 then NaN else if 0 < a then PInf else NInf)"
| "py_float_mul (Fin a) NInf = (if a = 0 then NaN else if 0 < a then NInf else PInf)"
| "py_float_mul PInf (Fin b) = (if b = 0 then NaN else if 0 < b then PInf else NInf)"
| "py_float_mul NInf (Fin b) = (if b = 0 then NaN else if 0 < b then NInf else PInf)"
| "py_float_mul PInf PInf = PInf"
| "py_float_mul PInf NInf = NInf"
| "py_float_mul NInf PInf = NInf"
| "py_float_mul NInf NInf = PInf"

text \<open>\<^verbatim>\<open>x / y\<close> of two floats: \<^verbatim>\<open>ZeroDivisionError\<close> for a zero divisor.\<close>

fun py_float_div :: "pyfloat \<Rightarrow> pyfloat \<Rightarrow> py_error + pyfloat" where
  "py_float_div NaN (Fin b) = (if b = 0 then Inl ZeroDivisionError else Inr NaN)"
| "py_float_div NaN _ = Inr NaN"
| "py_float_div _ NaN = Inr NaN"
| "py_float_div (Fin a) (Fin b) =
     (if b = 0 then Inl ZeroDivisionError else Inr (to_pyfloat (a / b)))"
| "py_float_div (Fin a) PInf = Inr (Fin 0)"
| "py_float_div (Fin a) NInf = Inr (Fin 0)"
| "py_float_div PInf (Fin b) =
     (if b = 0 then Inl ZeroDivisionError else if 0 < b then Inr PInf else Inr NInf)"
| "py_float_div NInf (Fin b) =
     (if b = 0 then Inl ZeroDivisionError else if 0 < b then Inr NInf else Inr PInf)"
| "py_float_div PInf PInf = Inr NaN"
| "py_float_div PInf NInf = Inr NaN"
| "py_float_div NInf PInf = Inr NaN"
| "py_float_div NInf NInf = Inr NaN"

text \<open>
  \<^verbatim>\<open>int(x)\<close> of a float truncates toward zero; it raises \<^verbatim>\<open>ValueError\<close> on not-a-number and
  \<^verbatim>\<open>OverflowError\<close> on an infinity.
\<close>

definition trunc_rat :: "rat \<Rightarrow> int" where
  "trunc_rat x = (if 0 \<le> x then \<lfloor>x\<rfloor> else \<lceil>x\<rceil>)"

fun py_int_of_float :: "pyfloat \<Rightarrow> py_error + int" where
  "py_int_of_float (Fin x) = Inr (trunc_rat x)"
| "py_int_of_float NaN = Inl ValueError"
| "py_int_of_float PInf = Inl OverflowError"
| "py_int_of_float NInf = Inl OverflowError"

text \<open>\<^verbatim>\<open>int(i * q)\<close> for an integer \<open>i\<close> and a float \<open>q\<close>, as both sources compute it.\<close>

definition py_int_of_scaled :: "int \<Rightarrow> pyfloat \<Rightarrow> py_error + int" where
  "py_int_of_scaled i q =
     (case py_float_of_int i of
        Inl e \<Rightarrow> Inl e
      | Inr fi \<Rightarrow> py_int_of_float (py_float_mul fi q))"

section \<open>optimizer.py\<close>

text \<open>
  An image of the imaging library is represented by what the optimizer reads and changes:
  its pixel mode, its size, whether its \<^verbatim>\<open>info\<close> dictionary has a \<^verbatim>\<open>transparency\<close> entry,
  and whether it is a white background onto which the frame has been pasted (with the
  frame's alpha channel as mask, or without a mask).
\<close>

datatype paste = WithAlphaMask | WithoutMask

record image =
  mode :: string
  size_wh :: "int \<times> int"
  info_transparency :: bool
  on_white :: "paste option"

text \<open>
  The library's \<^verbatim>\<open>Image.resize\<close>, which \<^verbatim>\<open>resize_image\<close> calls with the size it has computed:
  it raises \<^verbatim>\<open>ValueError\<close> when a requested side is below 1, and otherwise returns an image
  of the requested size and changes nothing else.
\<close>

definition image_resize :: "image \<Rightarrow> int \<times> int \<Rightarrow> py_error + image" where
  "image_resize img new_size =
     (if fst new_size < 1 \<or> snd new_size < 1 then Inl ValueError
      else Inr (img\<lparr>size_wh := new_size\<rparr>))"

definition resize_image :: "image \<Rightarrow> int \<Rightarrow> py_error + image" where
  "resize_image img max_size =
     (let (width, height) = size_wh img
      in if width \<le> max_size \<and> height \<le> max_size then Inr img
         else if height < width then
           (case py_int_truediv max_size width of
              Inl e \<Rightarrow> Inl e
            | Inr q \<Rightarrow>
                (case py_int_of_scaled height q of
                   Inl e \<Rightarrow> Inl e
                 | Inr new_height \<Rightarrow> image_resize img (max_size, new_height)))
         else
           (case py_int_truediv max_size height of
              Inl e \<Rightarrow> Inl e
            | Inr q \<Rightarrow>
                (case py_int_of_scaled width q of
                   Inl e \<Rightarrow> Inl e
                 | Inr new_width \<Rightarrow> image_resize img (new_width, max_size))))"

text \<open>
  The mode normalisation at the start of \<^verbatim>\<open>optimize_image\<close>.  For a JPEG target and a mode
  with transparency or a palette, the frame is pasted onto a new white \<^verbatim>\<open>RGB\<close> image of the
  same size, which replaces it; otherwise a mode that cannot be encoded directly is
  converted to \<^verbatim>\<open>RGB\<close>.
\<close>

definition optimize_image_convert :: "image \<Rightarrow> string \<Rightarrow> image" where
  "optimize_image_convert img output_format =
     (if output_format \<in> {''jpg'', ''jpeg''} \<and> mode img \<in> {''RGBA'', ''P'', ''LA''} then
        (let background = \<lparr>mode = ''RGB'', size_wh = size_wh img, info_transparency = False,
                           on_white = None\<rparr>
         in if mode img = ''RGBA'' then background\<lparr>on_white := Some WithAlphaMask\<rparr>
            else if mode img = ''P'' \<and> info_transparency img then
              background\<lparr>on_white := Some WithAlphaMask\<rparr>
            else background\<lparr>on_white := Some WithoutMask\<rparr>)
      else if mode img \<notin> {''RGB'', ''RGBA'', ''L''} then img\<lparr>mode := ''RGB''\<rparr>
      else img)"

text \<open>What \<^verbatim>\<open>optimize_image\<close> hands to the encoder: the image and the keyword arguments.\<close>

record save_call =
  saved_image :: image
  save_format :: "string option"
  save_quality :: "int option"
  save_optimize :: "bool option"
  save_method :: "int option"

definition optimize_image :: "image \<Rightarrow> int \<Rightarrow> string \<Rightarrow> int \<Rightarrow> py_error + save_call" where
  "optimize_image img0 max_size output_format quality =
     (case resize_image (optimize_image_convert img0 output_format) max_size of
        Inl e \<Rightarrow> Inl e
      | Inr img \<Rightarrow>
          Inr (if output_format \<in> {''jpg'', ''jpeg''} then
                 \<lparr>saved_image = img, save_format = Some ''JPEG'', save_quality = Some quality,
                  save_optimize = Some True, save_method = None\<rparr>
               else if output_format = ''png'' then
                 \<lparr>saved_image = img, save_format = Some ''PNG'', save_quality = None,
                  save_optimize = Some True, save_method = None\<rparr>
               else if output_format = ''webp'' then
                 \<lparr>saved_image = img, save_format = Some ''WEBP'', save_quality = Some quality,
                  save_optimize = None, save_method = Some 6\<rparr>
               else
                 \<lparr>saved_image = img, save_format = None, save_quality = None,
                  save_optimize = None, save_method = None\<rparr>))"

section \<open>extractor.py\<close>

subsection \<open>Strings to numbers\<close>

text \<open>
  \<^verbatim>\<open>float(s)\<close> and \<^verbatim>\<open>int(s)\<close> of a string, \<open>None\<close> standing for \<^verbatim>\<open>ValueError\<close>.  Both strip
  white space at the two ends and accept a sign and groups of digits separated by single
  underscores; \<^verbatim>\<open>float\<close> also accepts a fraction, a decimal exponent and the words
  \<^verbatim>\<open>inf\<close>, \<^verbatim>\<open>infinity\<close> and \<^verbatim>\<open>nan\<close> in any case, and rounds the decimal value to the nearest
  float.  Strings are ASCII here: digits and spaces outside ASCII, and the length limit of
  \<^verbatim>\<open>int\<close> on strings of several thousand digits, are not represented.
\<close>

definition is_space :: "char \<Rightarrow> bool" where
  "is_space c = (of_char c \<in> {9, 10, 11, 12, 13, 28, 29, 30, 31, 32 :: nat})"

definition is_digit :: "char \<Rightarrow> bool" where
  "is_digit c = (48 \<le> (of_char c :: nat) \<and> (of_char c :: nat) \<le> 57)"

definition strip :: "string \<Rightarrow> string" where
  "strip s = dropWhile is_space (rev (dropWhile is_space (rev s)))"

definition lower_char :: "char \<Rightarrow> char" where
  "lower_char c =
     (if 65 \<le> (of_char c :: nat) \<and> (of_char c :: nat) \<le> 90
      then char_of ((of_char c :: nat) + 32) else c)"

definition lower :: "string \<Rightarrow> string" where
  "lower s = map lower_char s"

fun split_sign :: "string \<Rightarrow> bool \<times> string" where
  "split_sign [] = (False, [])"
| "split_sign (c # cs) =
     (if c = CHR ''-'' then (True, cs) else if c = CHR ''+'' then (False, cs)
      else (False, c # cs))"

fun digitpart :: "string \<Rightarrow> bool" where
  "digitpart [] = False"
| "digitpart [c] = is_digit c"
| "digitpart (c # d # cs) =
     (is_digit c \<and> (if d = CHR ''_'' then digitpart cs else digitpart (d # cs)))"

definition digits_value :: "string \<Rightarrow> int" where
  "digits_value s = foldl (\<lambda>acc c. 10 * acc + (of_char c - 48)) 0 (filter is_digit s)"

definition py_int_of_str :: "string \<Rightarrow> int option" where
  "py_int_of_str s =
     (let (neg, d) = split_sign (strip s)
      in if digitpart d
         then Some (if neg then - digits_value d else digits_value d)
         else None)"

text \<open>The digits of a mantissa and the number of them after the point.\<close>

definition parse_mantissa :: "string \<Rightarrow> (int \<times> nat) option" where
  "parse_mantissa m =
     (let ip = takeWhile (\<lambda>c. c \<noteq> CHR ''.'') m;
          rest = dropWhile (\<lambda>c. c \<noteq> CHR ''.'') m
      in if rest = [] then (if digitpart ip then Some (digits_value ip, 0) else None)
         else let fp = tl rest
              in if ip = [] then
                   (if digitpart fp
                    then Some (digits_value fp, length (filter is_digit fp)) else None)
                 else if fp = [] then
                   (if digitpart ip then Some (digits_value ip, 0) else None)
                 else if digitpart ip \<and> digitpart fp
                   then Some (digits_value (ip @ fp), length (filter is_digit fp))
                 else None)"

definition parse_exponent :: "string \<Rightarrow> int option" where
  "parse_exponent x =
     (let (neg, d) = split_sign x
      in if digitpart d
         then Some (if neg then - digits_value d else digits_value d)
         else None)"

definition parse_decimal :: "string \<Rightarrow> rat option" where
  "parse_decimal s =
     (let mant = takeWhile (\<lambda>c. c \<noteq> CHR ''e'' \<and> c \<noteq> CHR ''E'') s;
          rest = dropWhile (\<lambda>c. c \<noteq> CHR ''e'' \<and> c \<noteq> CHR ''E'') s
      in case parse_mantissa mant of
           None \<Rightarrow> None
         | Some (digits, scale) \<Rightarrow>
             if rest = [] then Some (of_int digits / 10 ^ scale)
             else (case parse_exponent (tl rest) of
                     None \<Rightarrow> None
                   | Some ex \<Rightarrow> Some (of_int digits * power_int 10 (ex - int scale))))"

definition py_float_of_str :: "string \<Rightarrow> pyfloat option" where
  "py_float_of_str s =
     (let (neg, body) = split_sign (strip s); word = lower body
      in if word = ''inf'' \<or> word = ''infinity'' then Some (if neg then NInf else PInf)
         else if word = ''nan'' then Some NaN
         else (case parse_decimal body of
                 None \<Rightarrow> None
               | Some v \<Rightarrow> Some (to_pyfloat (if neg then - v else v))))"

text \<open>\<^verbatim>\<open>s.split(c)\<close>: the pieces of \<open>s\<close> between the occurrences of \<open>c\<close>.\<close>

fun split_on :: "char \<Rightarrow> string \<Rightarrow> string list" where
  "split_on c [] = [] # []"
| "split_on c (x # xs) =
     (if x = c then [] # split_on c xs
      else (case split_on c xs of [] \<Rightarrow> [x] # [] | p # ps \<Rightarrow> (x # p) # ps))"

subsection \<open>Float comparisons\<close>

text \<open>A comparison with not-a-number is false, except \<^verbatim>\<open>!=\<close>, which is true.\<close>

fun py_float_gt :: "pyfloat \<Rightarrow> pyfloat \<Rightarrow> bool" where
  "py_float_gt NaN _ = False"
| "py_float_gt _ NaN = False"
| "py_float_gt (Fin a) (Fin b) = (b < a)"
| "py_float_gt PInf PInf = False"
| "py_float_gt PInf _ = True"
| "py_float_gt _ PInf = False"
| "py_float_gt NInf _ = False"
| "py_float_gt (Fin a) NInf = True"

definition py_float_le :: "pyfloat \<Rightarrow> pyfloat \<Rightarrow> bool" where
  "py_float_le a b = (a \<noteq> NaN \<and> b \<noteq> NaN \<and> \<not> py_float_gt a b)"

definition py_float_ne :: "pyfloat \<Rightarrow> pyfloat \<Rightarrow> bool" where
  "py_float_ne a b = (if a = NaN then True else a \<noteq> b)"

text \<open>\<^verbatim>\<open>max(a, b)\<close> keeps its first argument unless the second is greater.\<close>

definition py_max :: "pyfloat \<Rightarrow> pyfloat \<Rightarrow> pyfloat" where
  "py_max a b = (if py_float_gt b a then b else a)"

subsection \<open>Probing\<close>

record MediaInfo =
  path :: string
  width :: int
  height :: int
  duration :: pyfloat
  frame_count :: int
  fps :: pyfloat
  format :: string
  codec :: "string option"

definition is_animated :: "MediaInfo \<Rightarrow> bool" where
  "is_animated info = (1 < frame_count info)"

text \<open>
  What the imaging library shows of an opened file: its size, its container format, the
  \<^verbatim>\<open>duration\<close> entry of \<^verbatim>\<open>info\<close> (in milliseconds, if there is one) at the first frame and at
  each later frame reached by \<^verbatim>\<open>seek\<close>, and whether walking the frames ends with
  \<^verbatim>\<open>EOFError\<close> or with another exception.
\<close>

datatype walk_end = EndOfFile | OtherException

record pil_file =
  pil_size :: "int \<times> int"
  pil_format :: "string option"
  first_duration :: "int option"
  later_durations :: "int option list"
  seek_end :: walk_end

text \<open>
  What the probing tool reports, as \<^verbatim>\<open>_run_ffprobe\<close> returns it: the streams with the fields
  that are read, each present or absent, and the duration of the container.
\<close>

record stream =
  stream_codec_type :: "string option"
  stream_width :: "int option"
  stream_height :: "int option"
  stream_codec_name :: "string option"
  stream_duration :: "string option"
  stream_r_frame_rate :: "string option"
  stream_nb_frames :: "string option"

record probe_data =
  streams :: "stream list"
  format_duration :: "string option"

text \<open>
  The surroundings of one call of \<^verbatim>\<open>get_media_info\<close>: the absolute path, whether the file
  exists, the result of opening it with the imaging library (\<open>None\<close> when that raises) and
  the result of \<^verbatim>\<open>_run_ffprobe\<close> (\<open>None\<close> when the tool is missing, fails, times out or prints
  no JSON).
\<close>

record probe_env =
  abspath :: string
  path_exists :: bool
  image_open :: "pil_file option"
  run_ffprobe :: "probe_data option"

text \<open>
  The frame rate of a stream from its \<^verbatim>\<open>r_frame_rate\<close> field.  Every \<^verbatim>\<open>ValueError\<close> and
  \<^verbatim>\<open>ZeroDivisionError\<close> of the \<^verbatim>\<open>try\<close> block gives 30.0.
\<close>

definition fps_of_str :: "string \<Rightarrow> pyfloat" where
  "fps_of_str fps_str =
     (if CHR ''/'' \<in> set fps_str then
        (case split_on CHR ''/'' fps_str of
           [num, den] \<Rightarrow>
             (case py_float_of_str den of
                None \<Rightarrow> Fin 30
              | Some d \<Rightarrow>
                  if py_float_ne d (Fin 0) then
                    (case py_float_of_str num of
                       None \<Rightarrow> Fin 30
                     | Some n \<Rightarrow> (case py_float_div n d of Inl e \<Rightarrow> Fin 30 | Inr v \<Rightarrow> v))
                  else Fin 30)
         | _ \<Rightarrow> Fin 30)
      else (case py_float_of_str fps_str of None \<Rightarrow> Fin 30 | Some v \<Rightarrow> v))"

text \<open>
  Walking the frames of a GIF: the number of frames and the sum of their durations in
  milliseconds, a frame without a duration counting for 100.
\<close>

definition gif_walk :: "pil_file \<Rightarrow> int \<times> int" where
  "gif_walk f =
     foldl (\<lambda>(frame_count, total_duration) d.
              (frame_count + 1, total_duration + (case d of None \<Rightarrow> 100 | Some v \<Rightarrow> v)))
       (0, 0) (first_duration f # later_durations f)"

text \<open>The container format in lower case, \<^verbatim>\<open>unknown\<close> when the library gives none.\<close>

definition container_format :: "pil_file \<Rightarrow> string" where
  "container_format f =
     (case pil_format f of None \<Rightarrow> ''unknown''
      | Some s \<Rightarrow> if s = [] then ''unknown'' else lower s)"

text \<open>
  The branch of \<^verbatim>\<open>get_media_info\<close> that uses the imaging library.  \<open>None\<close> means that an
  exception was raised inside the \<^verbatim>\<open>try\<close> block, which the block swallows.
\<close>

definition media_info_pil :: "string \<Rightarrow> pil_file \<Rightarrow> MediaInfo option" where
  "media_info_pil p f =
     (let (w, h) = pil_size f; fmt = container_format f
      in if fmt = ''gif'' then
           (if seek_end f = OtherException then None
            else let (n, total_duration) = gif_walk f
                 in case py_float_of_int total_duration of
                      Inl e \<Rightarrow> None
                    | Inr td \<Rightarrow>
                        (case py_float_div td (Fin 1000) of
                           Inl e \<Rightarrow> None
                         | Inr duration_sec \<Rightarrow>
                             (if py_float_gt duration_sec (Fin 0) then
                                (case py_float_of_int n of
                                   Inl e \<Rightarrow> None
                                 | Inr fn \<Rightarrow>
                                     (case py_float_div fn duration_sec of
                                        Inl e \<Rightarrow> None
                                      | Inr r \<Rightarrow>
                                          Some \<lparr>path = p, width = w, height = h,
                                                duration = duration_sec, frame_count = n,
                                                fps = r, format = ''gif'', codec = None\<rparr>))
                              else
                                Some \<lparr>path = p, width = w, height = h,
                                      duration = duration_sec, frame_count = n,
                                      fps = Fin 10, format = ''gif'', codec = None\<rparr>)))
         else
           Some \<lparr>path = p, width = w, height = h, duration = Fin 0, frame_count = 1,
                 fps = Fin 0, format = ''image'', codec = None\<rparr>)"

text \<open>The branch that uses the probing tool, for the first stream of type \<^verbatim>\<open>video\<close>.\<close>

definition float_field :: "string \<Rightarrow> py_error + pyfloat" where
  "float_field s = (case py_float_of_str s of None \<Rightarrow> Inl ValueError | Some v \<Rightarrow> Inr v)"

definition int_field :: "string \<Rightarrow> py_error + int" where
  "int_field s = (case py_int_of_str s of None \<Rightarrow> Inl ValueError | Some v \<Rightarrow> Inr v)"

definition probe_duration :: "probe_data \<Rightarrow> stream \<Rightarrow> py_error + pyfloat" where
  "probe_duration probe video_stream =
     (case stream_duration video_stream of
        Some s \<Rightarrow> float_field s
      | None \<Rightarrow> (case format_duration probe of Some s \<Rightarrow> float_field s | None \<Rightarrow> Inr (Fin 0)))"

definition probe_nb_frames :: "stream \<Rightarrow> py_error + int" where
  "probe_nb_frames video_stream =
     (case stream_nb_frames video_stream of None \<Rightarrow> Inr 0 | Some s \<Rightarrow> int_field s)"

definition probe_fps :: "stream \<Rightarrow> pyfloat" where
  "probe_fps video_stream =
     fps_of_str (case stream_r_frame_rate video_stream of None \<Rightarrow> ''30/1'' | Some s \<Rightarrow> s)"

definition media_info_stream :: "string \<Rightarrow> probe_data \<Rightarrow> stream \<Rightarrow> py_error + MediaInfo" where
  "media_info_stream p probe video_stream =
     (let w = (case stream_width video_stream of None \<Rightarrow> 0 | Some v \<Rightarrow> v);
          h = (case stream_height video_stream of None \<Rightarrow> 0 | Some v \<Rightarrow> v);
          c = (case stream_codec_name video_stream of None \<Rightarrow> ''unknown'' | Some v \<Rightarrow> v)
      in case probe_duration probe video_stream of
           Inl e \<Rightarrow> Inl e
         | Inr d \<Rightarrow>
             (case probe_nb_frames video_stream of
                Inl e \<Rightarrow> Inl e
              | Inr n \<Rightarrow>
                  (let r = probe_fps video_stream
                   in case (if n = 0 \<and> py_float_gt d (Fin 0)
                            then py_int_of_float (py_float_mul d r) else Inr n) of
                        Inl e \<Rightarrow> Inl e
                      | Inr n' \<Rightarrow>
                          Inr \<lparr>path = p, width = w, height = h, duration = d,
                               frame_count = n', fps = r,
                               format = (if c = ''gif'' then ''gif'' else ''video''),
                               codec = Some c\<rparr>)))"

text \<open>
  \<^verbatim>\<open>get_media_info\<close>: the imaging library first, the probing tool when the library gives
  nothing, \<^verbatim>\<open>None\<close> when neither gives a result.
\<close>

definition pil_branch :: "probe_env \<Rightarrow> MediaInfo option" where
  "pil_branch env =
     (case image_open env of None \<Rightarrow> None | Some f \<Rightarrow> media_info_pil (abspath env) f)"

definition get_media_info :: "probe_env \<Rightarrow> py_error + MediaInfo option" where
  "get_media_info env =
     (if \<not> path_exists env then Inr None
      else case pil_branch env of
             Some info \<Rightarrow> Inr (Some info)
           | None \<Rightarrow>
               (case run_ffprobe env of
                  None \<Rightarrow> Inr None
                | Some probe \<Rightarrow>
                    (case find (\<lambda>s. stream_codec_type s = Some ''video'') (streams probe) of
                       None \<Rightarrow> Inr None
                     | Some video_stream \<Rightarrow>
                         (case media_info_stream (abspath env) probe video_stream of
                            Inl e \<Rightarrow> Inl e
                          | Inr info \<Rightarrow> Inr (Some info)))))"

subsection \<open>Sampling plans\<close>

text \<open>
  The list comprehension of \<^verbatim>\<open>extract_frames_gif\<close> stops at the first element that raises.
\<close>

fun sequence_err :: "('e + 'a) list \<Rightarrow> 'e + 'a list" where
  "sequence_err [] = Inr []"
| "sequence_err (x # xs) =
     (case x of
        Inl e \<Rightarrow> Inl e
      | Inr v \<Rightarrow> (case sequence_err xs of Inl e \<Rightarrow> Inl e | Inr vs \<Rightarrow> Inr (v # vs)))"

text \<open>
  The indices \<^verbatim>\<open>frame_indices\<close> that \<^verbatim>\<open>extract_frames_gif\<close> computes from the number of frames
  it has counted and the number of frames asked for.
\<close>

definition frame_indices :: "int \<Rightarrow> int \<Rightarrow> py_error + int list" where
  "frame_indices total_frames num_frames =
     (if total_frames \<le> num_frames then Inr [0..total_frames - 1]
      else case py_int_truediv total_frames num_frames of
             Inl e \<Rightarrow> Inl e
           | Inr step \<Rightarrow>
               sequence_err (map (\<lambda>i. py_int_of_scaled i step) [0..num_frames - 1]))"

text \<open>
  The command line that \<^verbatim>\<open>extract_frames_video\<close> builds.  The three formatted arguments are
  kept as values: the \<^verbatim>\<open>select\<close> filter with its frame bound, the \<^verbatim>\<open>fps\<close> filter with its
  rate, and the frame count printed as a decimal.
\<close>

datatype ffmpeg_arg =
  Arg string
  | SelectBelow int
  | FpsFilter pyfloat
  | Count int
  | OutputPattern string string

definition extract_frames_video_cmd ::
  "bool \<Rightarrow> probe_env \<Rightarrow> string \<Rightarrow> string \<Rightarrow> int \<Rightarrow> string \<Rightarrow> py_error + ffmpeg_arg list" where
  "extract_frames_video_cmd have_ffmpeg env video_path output_dir num_frames prefix =
     (if \<not> have_ffmpeg then Inl RuntimeError
      else case get_media_info env of
             Inl e \<Rightarrow> Inl e
           | Inr None \<Rightarrow> Inl ValueError
           | Inr (Some info) \<Rightarrow>
               if py_float_le (duration info) (Fin 0) then
                 Inr [Arg ''ffmpeg'', Arg ''-i'', Arg video_path, Arg ''-vf'',
                      SelectBelow num_frames, Arg ''-vsync'', Arg ''vfr'', Arg ''-frames:v'',
                      Count num_frames, Arg ''-y'', OutputPattern output_dir prefix]
               else
                 (case py_float_of_int num_frames of
                    Inl e \<Rightarrow> Inl e
                  | Inr nf \<Rightarrow>
                      (case py_float_div nf (duration info) of
                         Inl e \<Rightarrow> Inl e
                       | Inr target_fps \<Rightarrow>
                           Inr [Arg ''ffmpeg'', Arg ''-i'', Arg video_path, Arg ''-vf'',
                                FpsFilter (py_max (to_pyfloat (1 / 10)) target_fps),
                                Arg ''-frames:v'', Count num_frames, Arg ''-y'',
                                OutputPattern output_dir prefix])))"

section \<open>Inputs used in the examples\<close>

text \<open>
  An image of a given size, an \<^verbatim>\<open>RGBA\<close> frame, a GIF of one frame and a PNG as the imaging
  library shows them, and a file for which the probing tool reports one video stream.
\<close>

abbreviation sized :: "int \<Rightarrow> int \<Rightarrow> image" where
  "sized w h \<equiv> \<lparr>mode = ''RGB'', size_wh = (w, h), info_transparency = False, on_white = None\<rparr>"

abbreviation rgba_frame :: image where
  "rgba_frame \<equiv>
     \<lparr>mode = ''RGBA'', size_wh = (2000, 1000), info_transparency = False, on_white = None\<rparr>"

abbreviation one_frame_gif :: pil_file where
  "one_frame_gif \<equiv>
     \<lparr>pil_size = (64, 48), pil_format = Some ''GIF'', first_duration = Some 100,
      later_durations = [], seek_end = EndOfFile\<rparr>"

abbreviation one_frame_gif_info :: MediaInfo where
  "one_frame_gif_info \<equiv>
     \<lparr>path = ''/tmp/a.gif'', width = 64, height = 48,
      duration = Fin (3602879701896397 / 36028797018963968), frame_count = 1, fps = Fin 10,
      format = ''gif'', codec = None\<rparr>"

abbreviation png_file :: pil_file where
  "png_file \<equiv>
     \<lparr>pil_size = (64, 48), pil_format = Some ''PNG'', first_duration = None,
      later_durations = [], seek_end = EndOfFile\<rparr>"

abbreviation png_file_info :: MediaInfo where
  "png_file_info \<equiv>
     \<lparr>path = ''/tmp/a.png'', width = 64, height = 48, duration = Fin 0, frame_count = 1,
      fps = Fin 0, format = ''image'', codec = None\<rparr>"

abbreviation video_stream_of :: "string option \<Rightarrow> stream" where
  "video_stream_of d \<equiv>
     \<lparr>stream_codec_type = Some ''video'', stream_width = Some 640, stream_height = Some 360,
      stream_codec_name = Some ''h264'', stream_duration = d,
      stream_r_frame_rate = Some ''30/1'', stream_nb_frames = None\<rparr>"

abbreviation probed_clip :: "string \<Rightarrow> string option \<Rightarrow> probe_env" where
  "probed_clip p d \<equiv>
     \<lparr>abspath = p, path_exists = True, image_open = None,
      run_ffprobe = Some \<lparr>streams = [video_stream_of d], format_duration = None\<rparr>\<rparr>"

abbreviation clip_info :: "string \<Rightarrow> rat \<Rightarrow> int \<Rightarrow> MediaInfo" where
  "clip_info p d n \<equiv>
     \<lparr>path = p, width = 640, height = 360, duration = Fin d, frame_count = n, fps = Fin 30,
      format = ''video'', codec = Some ''h264''\<rparr>"

section \<open>Rounding\<close>

text \<open>
  The exponent found by \<open>binade\<close> is the right one, rounding moves a number by at most half
  a unit in the last place, and it never crosses an integer below \<open>2^53\<close>.
\<close>

lemma bitlen_pos: "1 \<le> n \<Longrightarrow> 1 \<le> bitlen n"
  using bitlen_bounds [of n] by (cases "bitlen n \<le> 0") auto

lemma binade_bounds:
  assumes "0 < x"
  shows "power_int 2 (binade x) \<le> x \<and> x < power_int 2 (binade x + 1)"
proof (cases "1 \<le> x")
  case True
  define n where "n = \<lfloor>x\<rfloor>"
  have n1: "1 \<le> n" using True by (simp add: n_def le_floor_iff)
  have b: "2 ^ nat (bitlen n - 1) \<le> n" "n < 2 ^ nat (bitlen n)"
    using bitlen_bounds [of n] n1 by auto
  have bl: "1 \<le> bitlen n" using n1 by (rule bitlen_pos)
  have e: "binade x = bitlen n - 1" using True by (simp add: binade_def n_def)
  have lo: "(2::rat) ^ nat (bitlen n - 1) \<le> of_int n"
    using b(1) by (metis of_int_le_iff of_int_numeral of_int_power)
  have hi: "(of_int n :: rat) + 1 \<le> 2 ^ nat (bitlen n)"
  proof -
    from b(2) have "n + 1 \<le> 2 ^ nat (bitlen n)" by simp
    then have "(of_int (n + 1) :: rat) \<le> of_int (2 ^ nat (bitlen n))"
      by (simp only: of_int_le_iff)
    then show ?thesis by simp
  qed
  have nx: "(of_int n :: rat) \<le> x" "x < of_int n + 1"
    using floor_correct [of x] by (simp_all add: n_def)
  have p1: "power_int (2::rat) (bitlen n - 1) = 2 ^ nat (bitlen n - 1)"
    using bl by (simp add: power_int_def)
  have p2: "power_int (2::rat) (bitlen n - 1 + 1) = 2 ^ nat (bitlen n)"
    using bl by (simp add: power_int_def)
  show ?thesis unfolding e p1 p2 using lo hi nx by linarith
next
  case False
  define y where "y = 1 / x"
  define N where "N = \<lceil>y\<rceil> - 1"
  have y1: "1 < y" using False assms by (simp add: y_def)
  have N1: "1 \<le> N" using y1 by (simp add: N_def less_ceiling_iff)
  have Ny: "(of_int N :: rat) < y" "y \<le> of_int N + 1"
    using ceiling_correct [of y] by (simp_all add: N_def)
  have b: "2 ^ nat (bitlen N - 1) \<le> N" "N < 2 ^ nat (bitlen N)"
    using bitlen_bounds [of N] N1 by auto
  have bl: "1 \<le> bitlen N" using N1 by (rule bitlen_pos)
  have e: "binade x = - bitlen N" using False by (simp add: binade_def N_def y_def)
  have lo: "(2::rat) ^ nat (bitlen N - 1) \<le> of_int N"
    using b(1) by (metis of_int_le_iff of_int_numeral of_int_power)
  have hi: "(of_int N :: rat) + 1 \<le> 2 ^ nat (bitlen N)"
  proof -
    from b(2) have "N + 1 \<le> 2 ^ nat (bitlen N)" by simp
    then have "(of_int (N + 1) :: rat) \<le> of_int (2 ^ nat (bitlen N))"
      by (simp only: of_int_le_iff)
    then show ?thesis by simp
  qed
  have x_eq: "x = 1 / y" by (simp add: y_def)
  have p1: "power_int (2::rat) (- bitlen N) = 1 / 2 ^ nat (bitlen N)"
    using bl by (simp add: power_int_def field_simps)
  have p2: "power_int (2::rat) (- bitlen N + 1) = 1 / 2 ^ nat (bitlen N - 1)"
    using bl by (simp add: power_int_def field_simps)
  have ylo: "(2::rat) ^ nat (bitlen N - 1) < y" using lo Ny by linarith
  have yhi: "y \<le> 2 ^ nat (bitlen N)" using hi Ny by linarith
  have "1 / 2 ^ nat (bitlen N) \<le> 1 / y"
    using yhi y1 by (intro divide_left_mono) auto
  moreover have "1 / y < 1 / 2 ^ nat (bitlen N - 1)"
    using ylo y1 by (intro divide_strict_left_mono) (auto intro: mult_pos_pos)
  ultimately have "power_int 2 (- bitlen N) \<le> x \<and> x < power_int 2 (- bitlen N + 1)"
    unfolding p1 p2 x_eq by simp
  then show ?thesis by (simp only: e)
qed

lemma round_half_even_error: "\<bar>of_int (round_half_even y) - y\<bar> \<le> 1 / 2"
  using floor_correct [of y] by (auto simp: round_half_even_def Let_def)

lemma round_half_even_le: "y \<le> of_int N \<Longrightarrow> round_half_even y \<le> N"
  using round_half_even_error [of y] by linarith

lemma round_half_even_ge: "of_int N \<le> y \<Longrightarrow> N \<le> round_half_even y"
  using round_half_even_error [of y] by linarith

lemma round_half_even_of_int [simp]: "round_half_even (of_int N) = N"
  by (simp add: round_half_even_def)

lemma round_binary64_pos:
  "0 < x \<Longrightarrow> round_binary64 x =
     of_int (round_half_even (x / power_int 2 (ulp_exp x))) * power_int 2 (ulp_exp x)"
  by (simp add: round_binary64_def Let_def)

lemma round_binary64_nonneg: "0 \<le> x \<Longrightarrow> 0 \<le> round_binary64 x"
proof (cases "x = 0")
  case True
  then show ?thesis by (simp add: round_binary64_def)
next
  case False
  assume "0 \<le> x"
  with False have x: "0 < x" by simp
  have g: "0 < power_int (2::rat) (ulp_exp x)" by simp
  have "(of_int 0 :: rat) \<le> x / power_int 2 (ulp_exp x)" using x g by simp
  then have "0 \<le> round_half_even (x / power_int 2 (ulp_exp x))"
    by (rule round_half_even_ge)
  then show ?thesis using g x by (simp add: round_binary64_pos)
qed

lemma binade_less:
  assumes "0 < x" "x < 2 ^ n"
  shows "binade x < int n"
proof (rule ccontr)
  assume "\<not> binade x < int n"
  then have "power_int (2::rat) (int n) \<le> power_int 2 (binade x)"
    by (intro power_int_increasing) auto
  with binade_bounds [OF assms(1)] assms(2) show False by simp
qed

lemma ulp_fine:
  assumes "0 < x" "x < 2 ^ 53"
  shows "\<exists>j::nat. power_int (2::rat) (ulp_exp x) = 1 / 2 ^ j"
proof -
  from binade_less [OF assms] have "ulp_exp x \<le> 0" by (simp add: ulp_exp_def)
  then have "power_int (2::rat) (ulp_exp x) = 1 / 2 ^ nat (- ulp_exp x)"
    by (cases "ulp_exp x = 0") (simp_all add: power_int_def field_simps)
  then show ?thesis by blast
qed

lemma round_binary64_le_int:
  assumes "0 \<le> x" "x < 2 ^ 53" "x \<le> of_int k"
  shows "round_binary64 x \<le> of_int k"
proof (cases "x = 0")
  case True
  with assms show ?thesis by (simp add: round_binary64_def)
next
  case False
  with assms have x: "0 < x" by simp
  from ulp_fine [OF x assms(2)] obtain j :: nat
    where g: "power_int (2::rat) (ulp_exp x) = 1 / 2 ^ j" by blast
  have "x / (1 / 2 ^ j) \<le> of_int (k * 2 ^ j)" using assms(3) by (simp add: field_simps)
  then have "round_half_even (x / (1 / 2 ^ j)) \<le> k * 2 ^ j" by (rule round_half_even_le)
  then have "(of_int (round_half_even (x / (1 / 2 ^ j))) :: rat) \<le> of_int (k * 2 ^ j)"
    by (simp only: of_int_le_iff)
  then show ?thesis unfolding round_binary64_pos [OF x] g by (simp add: field_simps)
qed

lemma round_binary64_ge_int:
  assumes "0 \<le> x" "x < 2 ^ 53" "of_int k \<le> x"
  shows "of_int k \<le> round_binary64 x"
proof (cases "x = 0")
  case True
  with assms show ?thesis by (simp add: round_binary64_def)
next
  case False
  with assms have x: "0 < x" by simp
  from ulp_fine [OF x assms(2)] obtain j :: nat
    where g: "power_int (2::rat) (ulp_exp x) = 1 / 2 ^ j" by blast
  have "of_int (k * 2 ^ j) \<le> x / (1 / 2 ^ j)" using assms(3) by (simp add: field_simps)
  then have "k * 2 ^ j \<le> round_half_even (x / (1 / 2 ^ j))" by (rule round_half_even_ge)
  then have "(of_int (k * 2 ^ j) :: rat) \<le> of_int (round_half_even (x / (1 / 2 ^ j)))"
    by (simp only: of_int_le_iff)
  then show ?thesis unfolding round_binary64_pos [OF x] g by (simp add: field_simps)
qed

lemma round_binary64_of_int:
  assumes "0 \<le> k" "k < 2 ^ 53"
  shows "round_binary64 (of_int k) = of_int k"
proof -
  have b: "(of_int k :: rat) < 2 ^ 53"
    using assms(2) by (metis of_int_less_iff of_int_numeral of_int_power)
  have n: "(0::rat) \<le> of_int k" using assms(1) by simp
  from round_binary64_le_int [OF n b, of k] round_binary64_ge_int [OF n b, of k]
  show ?thesis by simp
qed

lemma round_binary64_error:
  assumes "0 \<le> x"
  shows "\<bar>round_binary64 x - x\<bar> \<le> x / 2 ^ 53 + 1 / 2 ^ 1075"
proof (cases "x = 0")
  case True
  then show ?thesis by (simp add: round_binary64_def)
next
  case False
  with assms have x: "0 < x" by simp
  define g :: rat where "g = power_int 2 (ulp_exp x)"
  have gpos: "0 < g" by (simp add: g_def)
  have r: "round_binary64 x = of_int (round_half_even (x / g)) * g"
    by (simp add: round_binary64_pos [OF x] g_def)
  have "round_binary64 x - x = (of_int (round_half_even (x / g)) - x / g) * g"
    using gpos by (simp add: r field_simps)
  then have "\<bar>round_binary64 x - x\<bar> = \<bar>of_int (round_half_even (x / g)) - x / g\<bar> * g"
    using gpos by (simp add: abs_mult)
  also have "\<dots> \<le> (1 / 2) * g"
    using round_half_even_error [of "x / g"] gpos by (intro mult_right_mono) auto
  finally have e1: "\<bar>round_binary64 x - x\<bar> \<le> g / 2" by simp
  have g2: "g \<le> x / 2 ^ 52 + 1 / 2 ^ 1074"
  proof (cases "- 1022 \<le> binade x")
    case True
    then have "g = power_int 2 (binade x - 52)" by (simp add: g_def ulp_exp_def max_def)
    also have "\<dots> = power_int 2 (binade x) / 2 ^ 52" by (simp add: power_int_diff)
    also have "\<dots> \<le> x / 2 ^ 52"
      using binade_bounds [OF x] by (intro divide_right_mono) auto
    finally show ?thesis by simp
  next
    case False
    then have "g = power_int 2 (- 1074)" by (simp add: g_def ulp_exp_def max_def)
    also have "\<dots> = 1 / 2 ^ 1074" by (simp add: power_int_def field_simps)
    finally show ?thesis using x by simp
  qed
  from e1 g2 show ?thesis by simp
qed

lemma round_binary64_error_weak:
  assumes "0 \<le> x"
  shows "round_binary64 x \<le> x + x / 2 ^ 53 + 1 / 2 ^ 100"
    and "x - x / 2 ^ 53 - 1 / 2 ^ 100 \<le> round_binary64 x"
proof -
  have "(1::rat) / 2 ^ 1075 \<le> 1 / 2 ^ 100" by simp
  with round_binary64_error [OF assms]
  show "round_binary64 x \<le> x + x / 2 ^ 53 + 1 / 2 ^ 100"
    and "x - x / 2 ^ 53 - 1 / 2 ^ 100 \<le> round_binary64 x"
    by linarith+
qed

lemma not_overflows:
  assumes "0 \<le> x" "x < 2 ^ 200"
  shows "\<not> overflows (round_binary64 x)"
proof -
  have "round_binary64 x \<le> x + x / 2 ^ 53 + 1 / 2 ^ 100"
    by (rule round_binary64_error_weak [OF assms(1)])
  also have "\<dots> \<le> 2 * x + 1" using assms(1) by simp
  also have "\<dots> < 2 ^ 1024" using assms(2) by simp
  finally show ?thesis
    using round_binary64_nonneg [OF assms(1)] by (simp add: overflows_def)
qed

lemma of_int_less_pow: "k < 2 ^ n \<Longrightarrow> (of_int k :: rat) < 2 ^ n"
  by (metis of_int_less_iff of_int_numeral of_int_power)

lemma py_float_of_int_exact:
  assumes "0 \<le> i" "i < 2 ^ 53"
  shows "py_float_of_int i = Inr (Fin (of_int i))"
proof -
  have "(of_int i :: rat) < 2 ^ 53" using assms(2) by (rule of_int_less_pow)
  then have "(of_int i :: rat) < 2 ^ 1024" by simp
  with assms show ?thesis
    by (simp add: py_float_of_int_def round_binary64_of_int overflows_def)
qed

lemma py_int_truediv_finite:
  assumes "0 \<le> a" "a < 2 ^ 53" "0 < b"
  shows "py_int_truediv a b = Inr (Fin (round_binary64 (of_int a / of_int b)))"
proof -
  have a: "(of_int a :: rat) < 2 ^ 53" using assms(2) by (rule of_int_less_pow)
  have "(of_int a :: rat) / of_int b \<le> of_int a"
    using assms by (simp add: divide_le_eq mult_le_cancel_left1)
  with a have "(of_int a :: rat) / of_int b < 2 ^ 200" by simp
  moreover have "(0::rat) \<le> of_int a / of_int b" using assms by simp
  ultimately have "\<not> overflows (round_binary64 (of_int a / of_int b))"
    by (intro not_overflows)
  with assms(3) show ?thesis by (simp add: py_int_truediv_def Let_def)
qed

lemma py_int_of_scaled_finite:
  assumes "0 \<le> i" "i < 2 ^ 53" "0 \<le> q" "q < 2 ^ 64"
  shows "py_int_of_scaled i (Fin q) = Inr \<lfloor>round_binary64 (of_int i * q)\<rfloor>"
proof -
  have i: "(of_int i :: rat) < 2 ^ 53" using assms(2) by (rule of_int_less_pow)
  have n: "0 \<le> of_int i * q" using assms by simp
  have "of_int i * q \<le> 2 ^ 53 * 2 ^ 64"
    using assms i by (intro mult_mono) auto
  then have "of_int i * q < 2 ^ 200" by simp
  with n have "\<not> overflows (round_binary64 (of_int i * q))" by (intro not_overflows)
  moreover have "0 \<le> round_binary64 (of_int i * q)" using n by (rule round_binary64_nonneg)
  ultimately show ?thesis
    using assms by (simp add: py_int_of_scaled_def py_float_of_int_exact to_pyfloat_def
        trunc_rat_def)
qed

subsection \<open>Evaluating the rounding of a given number\<close>

text \<open>
  For a concrete number the binade and the rounded mantissa can be given and checked by
  arithmetic, instead of being computed.
\<close>

lemma binade_eqI:
  assumes "0 < x" "power_int 2 e \<le> x" "x < power_int 2 (e + 1)"
  shows "binade x = e"
proof (rule antisym)
  note b = binade_bounds [OF assms(1)]
  show "binade x \<le> e"
  proof (rule ccontr)
    assume "\<not> binade x \<le> e"
    then have "e + 1 \<le> binade x" by simp
    then have "power_int (2::rat) (e + 1) \<le> power_int 2 (binade x)"
      by (intro power_int_increasing) auto
    with b assms(3) show False by simp
  qed
  show "e \<le> binade x"
  proof (rule ccontr)
    assume "\<not> e \<le> binade x"
    then have "binade x + 1 \<le> e" by simp
    then have "power_int (2::rat) (binade x + 1) \<le> power_int 2 e"
      by (intro power_int_increasing) auto
    with b assms(2) show False by simp
  qed
qed

lemma round_half_even_eqI: "\<bar>y - of_int k\<bar> < 1 / 2 \<Longrightarrow> round_half_even y = k"
  using round_half_even_error [of y] by linarith

lemma round_binary64_eqI:
  assumes "0 < x" "power_int 2 e \<le> x" "x < power_int 2 (e + 1)" "- 1022 \<le> e"
    and "\<bar>x / power_int 2 (e - 52) - of_int k\<bar> < 1 / 2"
  shows "round_binary64 x = of_int k * power_int 2 (e - 52)"
  using assms
  by (simp add: round_binary64_pos ulp_exp_def binade_eqI [OF assms(1-3)] max_def
      round_half_even_eqI)

lemma round_binary64_numeral:
  "(numeral w :: int) < 2 ^ 53 \<Longrightarrow> round_binary64 (numeral w) = numeral w"
  using round_binary64_of_int [of "numeral w"] by simp

lemma round_binary64_0 [simp]: "round_binary64 0 = 0"
  by (simp add: round_binary64_def)

lemma round_binary64_1 [simp]: "round_binary64 1 = 1"
  using round_binary64_of_int [of 1] by simp

lemmas float_eval =
  py_int_truediv_def py_int_of_scaled_def py_float_of_int_def to_pyfloat_def overflows_def
  trunc_rat_def round_binary64_numeral floor_eq_iff Let_def

lemma overflows_code [code]: "overflows r = ((2 ^ 32) ^ 32 \<le> \<bar>r\<bar>)"
  by (simp add: overflows_def)

section \<open>Properties of the optimizer\<close>

lemma resize_image_mode:
  "resize_image img m = Inr img' \<Longrightarrow> mode img' = mode img \<and> on_white img' = on_white img"
  by (auto simp: resize_image_def image_resize_def Let_def
      split: prod.splits if_splits sum.splits)

lemma quotient_le_one:
  assumes "0 \<le> m" "m < l"
  shows "0 \<le> round_binary64 (of_int m / of_int l)"
    and "round_binary64 (of_int m / of_int l) \<le> 1"
proof -
  have n: "(0::rat) \<le> of_int m / of_int l" using assms by simp
  have "(of_int m :: rat) / of_int l \<le> 1" using assms by (simp add: divide_le_eq)
  then have le: "(of_int m :: rat) / of_int l \<le> of_int 1" by simp
  have lt: "(of_int m :: rat) / of_int l < 2 ^ 53"
    using \<open>(of_int m :: rat) / of_int l \<le> 1\<close> by simp
  show "0 \<le> round_binary64 (of_int m / of_int l)" using n by (rule round_binary64_nonneg)
  from round_binary64_le_int [OF n lt le]
  show "round_binary64 (of_int m / of_int l) \<le> 1" by simp
qed

lemma scaled_le_other:
  assumes "0 \<le> o'" "o' < 2 ^ 53" "0 \<le> q" "q \<le> 1"
  shows "\<lfloor>round_binary64 (of_int o' * q)\<rfloor> \<le> o'"
    and "0 \<le> \<lfloor>round_binary64 (of_int o' * q)\<rfloor>"
proof -
  have o: "(of_int o' :: rat) < 2 ^ 53" using assms(2) by (rule of_int_less_pow)
  have n: "0 \<le> of_int o' * q" using assms by simp
  have le: "of_int o' * q \<le> of_int o'"
    using assms by (simp add: mult_le_cancel_left2)
  with o have lt: "of_int o' * q < 2 ^ 53" by simp
  from round_binary64_le_int [OF n lt le]
  show "\<lfloor>round_binary64 (of_int o' * q)\<rfloor> \<le> o'" by (simp add: floor_le_iff)
  from round_binary64_nonneg [OF n]
  show "0 \<le> \<lfloor>round_binary64 (of_int o' * q)\<rfloor>" by simp
qed

lemma scaled_le_max:
  assumes "0 \<le> m" "m < l" "l < 2 ^ 31" "0 \<le> o'" "o' \<le> l"
  shows "\<lfloor>round_binary64 (of_int o' * round_binary64 (of_int m / of_int l))\<rfloor> \<le> m"
proof -
  define q where "q = round_binary64 (of_int m / of_int l)"
  define M :: rat where "M = of_int m"
  define L :: rat where "L = of_int l"
  define X where "X = of_int o' * q"
  have L: "0 < L" "L < 2 ^ 31" using assms of_int_less_pow [of l 31] by (simp_all add: L_def)
  have M: "0 \<le> M" "M < 2 ^ 31" using assms L by (simp_all add: M_def L_def)
  have q0: "0 \<le> q" unfolding q_def using assms(1,2) by (rule quotient_le_one)
  have "q \<le> M / L + (M / L) / 2 ^ 53 + 1 / 2 ^ 100"
    unfolding q_def M_def L_def using assms by (intro round_binary64_error_weak) simp
  then have "L * q \<le> L * (M / L + (M / L) / 2 ^ 53 + 1 / 2 ^ 100)"
    using L by (intro mult_left_mono) auto
  also have "\<dots> = M + M / 2 ^ 53 + L / 2 ^ 100" using L by (simp add: field_simps)
  finally have Lq: "L * q \<le> M + M / 2 ^ 53 + L / 2 ^ 100" .
  have "X \<le> L * q" unfolding X_def L_def using assms q0 by (intro mult_right_mono) auto
  with Lq have X: "X \<le> M + M / 2 ^ 53 + L / 2 ^ 100" by simp
  have X0: "0 \<le> X" unfolding X_def using assms q0 by simp
  have "round_binary64 X \<le> X + X / 2 ^ 53 + 1 / 2 ^ 100"
    using X0 by (rule round_binary64_error_weak)
  with X M L have "round_binary64 X < M + 1" by simp
  then have "round_binary64 X < of_int (m + 1)" by (simp add: M_def)
  then have "\<lfloor>round_binary64 X\<rfloor> < m + 1" by (subst floor_less_iff)
  then show ?thesis by (simp add: X_def q_def)
qed

lemma floor_quotient_gap:
  assumes "0 < l"
  shows "(of_int a :: rat) / of_int l \<le> of_int \<lfloor>(of_int a :: rat) / of_int l\<rfloor> + 1 - 1 / of_int l"
proof -
  have k: "\<lfloor>(of_int a :: rat) / of_int l\<rfloor> = a div l" by (simp add: floor_divide_of_int_eq)
  have "a mod l \<le> l - 1" using assms pos_mod_bound [of l a] by simp
  then have "a \<le> (a div l) * l + (l - 1)" using div_mult_mod_eq [of a l] by linarith
  then have "(of_int a :: rat) \<le> of_int ((a div l) * l + (l - 1))" by (simp only: of_int_le_iff)
  then have "(of_int a :: rat) / of_int l \<le> of_int ((a div l) * l + (l - 1)) / of_int l"
    using assms by (intro divide_right_mono) auto
  also have "\<dots> = of_int (a div l) + 1 - 1 / of_int l"
    using assms by (simp add: field_simps)
  finally show ?thesis by (simp add: k)
qed

lemma scaled_near_exact:
  assumes "0 \<le> m" "m < l" "l < 2 ^ 31" "0 \<le> o'" "o' \<le> l" "m \<le> 16384"
  defines "E \<equiv> (of_int o' * of_int m / of_int l :: rat)"
    and "d \<equiv> \<lfloor>round_binary64 (of_int o' * round_binary64 (of_int m / of_int l))\<rfloor>"
  shows "d = \<lfloor>E\<rfloor> \<or> d = \<lfloor>E\<rfloor> - 1"
proof -
  define q where "q = round_binary64 (of_int m / of_int l)"
  define M :: rat where "M = of_int m"
  define L :: rat where "L = of_int l"
  define P :: rat where "P = of_int o'"
  define X where "X = P * q"
  have L: "0 < L" "L < 2 ^ 31" using assms of_int_less_pow [of l 31] by (simp_all add: L_def)
  have M: "0 \<le> M" "M \<le> 16384" using assms by (simp_all add: M_def)
  have P: "0 \<le> P" "P \<le> L" using assms by (simp_all add: P_def L_def)
  have E_eq: "E = P * (M / L)" by (simp add: E_def P_def M_def L_def)
  have ratio_nonneg: "0 \<le> M / L" using M L by simp
  have "P * (M / L) \<le> L * (M / L)" using P ratio_nonneg by (intro mult_right_mono) auto
  then have E_le: "E \<le> M" using L by (simp add: E_eq)
  have E0: "0 \<le> E" unfolding E_eq using P(1) ratio_nonneg by (rule mult_nonneg_nonneg)
  have q0: "0 \<le> q" unfolding q_def using assms(1,2) by (rule quotient_le_one)
  have qb: "q \<le> M / L + (M / L) / 2 ^ 53 + 1 / 2 ^ 100"
    "M / L - (M / L) / 2 ^ 53 - 1 / 2 ^ 100 \<le> q"
    unfolding q_def M_def L_def using assms by (intro round_binary64_error_weak; simp)+
  have "X \<le> P * (M / L + (M / L) / 2 ^ 53 + 1 / 2 ^ 100)"
    unfolding X_def using qb(1) P by (intro mult_left_mono) auto
  also have "\<dots> = E + E / 2 ^ 53 + P / 2 ^ 100" by (simp add: E_eq field_simps)
  finally have Xhi: "X \<le> E + E / 2 ^ 53 + P / 2 ^ 100" .
  have "P * (M / L - (M / L) / 2 ^ 53 - 1 / 2 ^ 100) \<le> X"
    unfolding X_def using qb(2) P by (intro mult_left_mono) auto
  also have "P * (M / L - (M / L) / 2 ^ 53 - 1 / 2 ^ 100) = E - E / 2 ^ 53 - P / 2 ^ 100"
    by (simp add: E_eq field_simps)
  finally have Xlo: "E - E / 2 ^ 53 - P / 2 ^ 100 \<le> X" .
  have X0: "0 \<le> X" unfolding X_def using P q0 by simp
  have rb: "round_binary64 X \<le> X + X / 2 ^ 53 + 1 / 2 ^ 100"
    "X - X / 2 ^ 53 - 1 / 2 ^ 100 \<le> round_binary64 X"
    using X0 by (rule round_binary64_error_weak)+
  have hi: "round_binary64 X < E + 1 / 2 ^ 32"
    using rb(1) Xhi E_le E0 M P L by simp
  have lo: "E - 1 / 2 ^ 32 < round_binary64 X"
    using rb(2) Xlo Xhi E_le E0 M P L by simp
  have gap: "E \<le> of_int \<lfloor>E\<rfloor> + 1 - 1 / L"
    using floor_quotient_gap [of l "o' * m"] assms(1,2)
    by (simp add: E_def L_def)
  have "1 / L > 1 / 2 ^ 31" using L by (simp add: field_simps)
  with gap hi have "round_binary64 X < of_int (\<lfloor>E\<rfloor> + 1)" by simp
  then have "\<lfloor>round_binary64 X\<rfloor> < \<lfloor>E\<rfloor> + 1" by (subst floor_less_iff)
  then have up: "d \<le> \<lfloor>E\<rfloor>" by (simp add: d_def X_def q_def P_def)
  have "of_int \<lfloor>E\<rfloor> \<le> E" by (rule of_int_floor_le)
  moreover have "(1::rat) / 2 ^ 32 < 1" by simp
  ultimately have "of_int \<lfloor>E\<rfloor> - 1 \<le> round_binary64 X" using lo by linarith
  then have "of_int (\<lfloor>E\<rfloor> - 1) \<le> round_binary64 X" by simp
  then have "\<lfloor>E\<rfloor> - 1 \<le> \<lfloor>round_binary64 X\<rfloor>" by (subst le_floor_iff)
  then have down: "\<lfloor>E\<rfloor> - 1 \<le> d" by (simp add: d_def X_def q_def P_def)
  from up down show ?thesis by linarith
qed

lemma image_resize_accepts:
  "1 \<le> a \<Longrightarrow> 1 \<le> b \<Longrightarrow> image_resize img (a, b) = Inr (img\<lparr>size_wh := (a, b)\<rparr>)"
  by (simp add: image_resize_def)

lemma image_resize_rejects:
  "a < 1 \<or> b < 1 \<Longrightarrow> image_resize img (a, b) = Inl ValueError"
  by (simp add: image_resize_def)

lemma image_resize_result:
  "image_resize img (a, b) = Inr img' \<Longrightarrow> 1 \<le> a \<and> 1 \<le> b \<and> img' = img\<lparr>size_wh := (a, b)\<rparr>"
  by (simp add: image_resize_def split: if_splits)

lemma resize_image_wide:
  assumes "size_wh img = (w, h)" "0 \<le> h" "h < w" "w < 2 ^ 31" "0 \<le> m" "m < w"
  shows "resize_image img m =
     image_resize img
       (m, \<lfloor>round_binary64 (of_int h * round_binary64 (of_int m / of_int w))\<rfloor>)"
proof -
  have m53: "m < 2 ^ 53" and h53: "h < 2 ^ 53" and w0: "0 < w" using assms by simp_all
  have q: "0 \<le> round_binary64 (of_int m / of_int w)" "round_binary64 (of_int m / of_int w) \<le> 1"
    using assms(5,6) by (rule quotient_le_one)+
  then have q64: "round_binary64 (of_int m / of_int w) < 2 ^ 64" by simp
  show ?thesis
    using assms
    by (simp add: resize_image_def py_int_truediv_finite [OF assms(5) m53 w0]
        py_int_of_scaled_finite [OF assms(2) h53 q(1) q64])
qed

lemma resize_image_tall:
  assumes "size_wh img = (w, h)" "0 \<le> w" "w \<le> h" "h < 2 ^ 31" "0 \<le> m" "m < h"
  shows "resize_image img m =
     image_resize img
       (\<lfloor>round_binary64 (of_int w * round_binary64 (of_int m / of_int h))\<rfloor>, m)"
proof -
  have m53: "m < 2 ^ 53" and w53: "w < 2 ^ 53" and h0: "0 < h" using assms by simp_all
  have q: "0 \<le> round_binary64 (of_int m / of_int h)" "round_binary64 (of_int m / of_int h) \<le> 1"
    using assms(5,6) by (rule quotient_le_one)+
  then have q64: "round_binary64 (of_int m / of_int h) < 2 ^ 64" by simp
  show ?thesis
    using assms
    by (simp add: resize_image_def py_int_truediv_finite [OF assms(5) m53 h0]
        py_int_of_scaled_finite [OF assms(2) w53 q(1) q64])
qed

lemma resize_image_fits:
  assumes "size_wh img = (w, h)" "w \<le> m" "h \<le> m"
  shows "resize_image img m = Inr img"
  using assms by (simp add: resize_image_def)

text \<open>
  The side that \<^verbatim>\<open>resize_image\<close> computes for an image that does not fit, and the size it
  asks the library for.
\<close>

lemma resize_image_request:
  assumes "size_wh img = (w, h)" "0 \<le> w" "w < 2 ^ 31" "0 \<le> h" "h < 2 ^ 31"
    and "0 \<le> m" "m < w \<or> m < h"
  defines "d \<equiv> \<lfloor>round_binary64 (of_int (min w h) *
                    round_binary64 (of_int m / of_int (max w h)))\<rfloor>"
  shows "resize_image img m = image_resize img (if h < w then (m, d) else (d, m))"
    and "0 \<le> d" and "d \<le> min w h" and "d \<le> m"
proof -
  show "resize_image img m = image_resize img (if h < w then (m, d) else (d, m))"
  proof (cases "h < w")
    case True
    with assms(7) have mw: "m < w" by linarith
    from True have mn: "min w h = h" "max w h = w" by simp_all
    from resize_image_wide [OF assms(1,4) True assms(3,6) mw] True
    show ?thesis by (simp add: d_def mn)
  next
    case False
    with assms(7) have mh: "m < h" by linarith
    from False have wh: "w \<le> h" and mn: "min w h = w" "max w h = h" by simp_all
    from resize_image_tall [OF assms(1,2) wh assms(5,6) mh] False
    show ?thesis by (simp add: d_def mn)
  qed
  have l: "m < max w h" "max w h < 2 ^ 31" "0 \<le> min w h" "min w h \<le> max w h"
    "min w h < 2 ^ 53"
    using assms(2-7) by (auto simp: min_def max_def)
  have q: "0 \<le> round_binary64 (of_int m / of_int (max w h))"
    "round_binary64 (of_int m / of_int (max w h)) \<le> 1"
    using assms(6) l(1) by (rule quotient_le_one)+
  show "d \<le> min w h" unfolding d_def using l(3,5) q by (rule scaled_le_other)
  show "0 \<le> d" unfolding d_def using l(3,5) q by (rule scaled_le_other)
  show "d \<le> m" unfolding d_def using assms(6) l(1,2,3,4) by (rule scaled_le_max)
qed

text \<open>
  C10, as stated, fails.  For a 5000 by 1 image and the maximum size 1024 the height
  computed is \<^verbatim>\<open>int(1 * (1024 / 5000))\<close>, which is 0, and the library's \<^verbatim>\<open>resize\<close> raises
  \<^verbatim>\<open>ValueError\<close> for the size 1024 by 0: \<^verbatim>\<open>resize_image\<close> returns no image.
\<close>

theorem resize_image_zero_height_counterexample:
  "resize_image (sized 5000 1) 1024 = Inl ValueError"
  by code_simp

text \<open>
  C10, amended.  For an image with sides from 1 to below \<open>2^31\<close> and a maximum size from 0
  to 16384: whenever \<^verbatim>\<open>resize_image\<close> returns an image, both of its sides are at least 1;
  and whenever the image does not fit and its aspect ratio is so extreme that the exact
  proportional side is below 1, the side computed is 0 and \<^verbatim>\<open>resize_image\<close> raises
  \<^verbatim>\<open>ValueError\<close>.
\<close>

theorem resize_image_rejects_zero_side:
  assumes "size_wh img = (w, h)" "1 \<le> w" "w < 2 ^ 31" "1 \<le> h" "h < 2 ^ 31"
    and "0 \<le> m" "m \<le> 16384"
  shows "(\<forall>img'. resize_image img m = Inr img' \<longrightarrow>
            1 \<le> fst (size_wh img') \<and> 1 \<le> snd (size_wh img')) \<and>
         ((m < w \<or> m < h) \<and> min w h * m < max w h \<longrightarrow>
            resize_image img m = Inl ValueError)"
proof -
  have positive: "1 \<le> fst (size_wh img') \<and> 1 \<le> snd (size_wh img')"
    if r: "resize_image img m = Inr img'" for img'
  proof (cases "w \<le> m \<and> h \<le> m")
    case True
    with assms(1) have "resize_image img m = Inr img" by (simp add: resize_image_fits)
    with r assms(1,2,4) show ?thesis by simp
  next
    case False
    then have nf: "m < w \<or> m < h" by linarith
    have w0: "0 \<le> w" and h0: "0 \<le> h" using assms(2,4) by simp_all
    from resize_image_request(1) [OF assms(1) w0 assms(3) h0 assms(5,6) nf] r
    have i: "image_resize img
        (if h < w
         then (m, \<lfloor>round_binary64 (of_int (min w h) *
                    round_binary64 (of_int m / of_int (max w h)))\<rfloor>)
         else (\<lfloor>round_binary64 (of_int (min w h) *
                    round_binary64 (of_int m / of_int (max w h)))\<rfloor>, m)) = Inr img'"
      by simp
    show ?thesis
    proof (cases "h < w")
      case True
      with i show ?thesis by (auto dest!: image_resize_result)
    next
      case False
      with i show ?thesis by (auto dest!: image_resize_result)
    qed
  qed
  have rejected: "resize_image img m = Inl ValueError"
    if a: "(m < w \<or> m < h) \<and> min w h * m < max w h"
  proof -
  from a have nf: "m < w \<or> m < h" and thin: "min w h * m < max w h" by simp_all
  have w0: "0 \<le> w" and h0: "0 \<le> h" using assms(2,4) by simp_all
  define d where "d = \<lfloor>round_binary64 (of_int (min w h) *
                    round_binary64 (of_int m / of_int (max w h)))\<rfloor>"
  define E :: rat where "E = of_int (min w h) * of_int m / of_int (max w h)"
  have l: "m < max w h" "max w h < 2 ^ 31" "0 \<le> min w h" "min w h \<le> max w h" "0 < max w h"
    using assms(2-6) nf by (auto simp: min_def max_def)
  have "d = \<lfloor>E\<rfloor> \<or> d = \<lfloor>E\<rfloor> - 1"
    unfolding d_def E_def using assms(6) l(1,2,3,4) assms(7) by (rule scaled_near_exact)
  moreover have "\<lfloor>E\<rfloor> = 0"
  proof -
    have "(of_int (min w h * m) :: rat) < of_int (max w h)"
      using thin by (simp only: of_int_less_iff)
    then have "E < 1" using l(5) by (simp add: E_def divide_less_eq)
    moreover have "0 \<le> E" using l(3,5) assms(6) by (simp add: E_def)
    ultimately show ?thesis by (simp add: floor_eq_iff)
  qed
  ultimately have small: "d < 1" by auto
  have req: "resize_image img m = image_resize img (if h < w then (m, d) else (d, m))"
    unfolding d_def using assms(1) w0 assms(3) h0 assms(5,6) nf
    by (rule resize_image_request(1))
  show "resize_image img m = Inl ValueError"
    using small by (cases "h < w") (simp_all add: req image_resize_def)
  qed
  from positive rejected show ?thesis by blast
qed

theorem resize_image_rejects_zero_side_witness:
  "size_wh (sized 1000 3) = (1000, 3) \<and> (1::int) \<le> 1000 \<and> (1000::int) < 2 ^ 31 \<and>
   (1::int) \<le> 3 \<and> (3::int) < 2 ^ 31 \<and> (0::int) \<le> 16 \<and> (16::int) \<le> 16384 \<and>
   ((16::int) < 1000 \<or> (16::int) < 3) \<and> min 1000 3 * 16 < max 1000 (3::int) \<and>
   resize_image (sized 1000 3) 16 = Inl ValueError \<and>
   resize_image (sized 10 7) 4 = Inr (sized 4 2) \<and>
   1 \<le> fst (size_wh (sized 4 2)) \<and> 1 \<le> snd (size_wh (sized 4 2))"
proof -
  have s: "size_wh (sized 1000 3) = (1000, 3)" by simp
  have b: "(1::int) \<le> 1000" "(1000::int) < 2 ^ 31" "(1::int) \<le> 3" "(3::int) < 2 ^ 31"
    "(0::int) \<le> 16" "(16::int) \<le> 16384" by simp_all
  have t: "((16::int) < 1000 \<or> (16::int) < 3) \<and> min 1000 3 * 16 < max 1000 (3::int)"
    by simp
  from resize_image_rejects_zero_side [OF s b] t
  have e: "resize_image (sized 1000 3) 16 = Inl ValueError" by blast
  have s2: "size_wh (sized 10 7) = (10, 7)" by simp
  have b2: "(1::int) \<le> 10" "(10::int) < 2 ^ 31" "(1::int) \<le> 7" "(7::int) < 2 ^ 31"
    "(0::int) \<le> 4" "(4::int) \<le> 16384" by simp_all
  have r: "resize_image (sized 10 7) 4 = Inr (sized 4 2)" by code_simp
  from resize_image_rejects_zero_side [OF s2 b2] r
  have p: "1 \<le> fst (size_wh (sized 4 2)) \<and> 1 \<le> snd (size_wh (sized 4 2))" by blast
  from s b t e r p show ?thesis by blast
qed

text \<open>
  C9.  When the target format is not \<^verbatim>\<open>jpg\<close> or \<^verbatim>\<open>jpeg\<close> (in particular for \<^verbatim>\<open>png\<close> and
  \<^verbatim>\<open>webp\<close>), the mode normalisation never pastes the frame onto a white background, and an
  \<^verbatim>\<open>RGBA\<close> image goes through it unchanged: the image handed to the encoder still has mode
  \<^verbatim>\<open>RGBA\<close>, alpha channel included, and differs from the input in its size at most.
\<close>

theorem optimize_image_keeps_rgba:
  assumes "fmt \<notin> {''jpg'', ''jpeg''}"
  shows "on_white (optimize_image_convert img fmt) = on_white img \<and>
         (mode img = ''RGBA'' \<longrightarrow>
            optimize_image_convert img fmt = img \<and>
            (\<forall>c. optimize_image img m fmt q = Inr c \<longrightarrow>
               mode (saved_image c) = ''RGBA'' \<and>
               on_white (saved_image c) = on_white img))"
proof -
  from assms have keep: "on_white (optimize_image_convert img fmt) = on_white img"
    by (simp add: optimize_image_convert_def)
  have conv: "optimize_image_convert img fmt = img" if "mode img = ''RGBA''"
    using that assms by (simp add: optimize_image_convert_def)
  have saved: "mode (saved_image c) = ''RGBA'' \<and> on_white (saved_image c) = on_white img"
    if rgba: "mode img = ''RGBA''" and c: "optimize_image img m fmt q = Inr c" for c
  proof -
    from c conv [OF rgba] obtain img' where r: "resize_image img m = Inr img'"
      and s: "saved_image c = img'"
      by (auto simp: optimize_image_def split: sum.splits if_splits)
    from resize_image_mode [OF r] s rgba show ?thesis by simp
  qed
  from keep conv saved show ?thesis by blast
qed

theorem optimize_image_keeps_rgba_witness:
  "''png'' \<notin> {''jpg'', ''jpeg''} \<and> mode rgba_frame = ''RGBA'' \<and>
   optimize_image rgba_frame 1024 ''png'' 80
     = Inr \<lparr>saved_image = rgba_frame\<lparr>size_wh := (1024, 512)\<rparr>,
              save_format = Some ''PNG'', save_quality = None, save_optimize = Some True,
              save_method = None\<rparr> \<and>
   optimize_image_convert rgba_frame ''png'' = rgba_frame \<and>
   on_white (optimize_image_convert rgba_frame ''png'') = None"
proof -
  have fmt: "''png'' \<notin> {''jpg'', ''jpeg''}" by simp
  have run: "optimize_image rgba_frame 1024 ''png'' 80
     = Inr \<lparr>saved_image = rgba_frame\<lparr>size_wh := (1024, 512)\<rparr>,
              save_format = Some ''PNG'', save_quality = None, save_optimize = Some True,
              save_method = None\<rparr>"
    by code_simp
  from optimize_image_keeps_rgba [OF fmt, of rgba_frame 1024 80] fmt run
  show ?thesis by simp
qed

text \<open>
  C3, as stated, fails.  A 10 by 7 image resized to fit 4 gets the height
  \<^verbatim>\<open>int(7 * (4 / 10))\<close>, which is 2, while the proportional height 2.8 rounded to the
  nearest integer is 3.
\<close>

theorem resize_image_rounds_counterexample:
  "resize_image (sized 10 7) 4 = Inr (sized 4 2) \<and> round ((7 :: rat) * (4 / 10)) = 3"
proof
  show "resize_image (sized 10 7) 4 = Inr (sized 4 2)"
    by code_simp
  show "round ((7 :: rat) * (4 / 10)) = 3"
    by code_simp
qed

text \<open>
  C3, amended.  For an image with sides below \<open>2^31\<close> that does not fit a maximum size
  between 1 and 16384 (the command line accepts 16 to 16384), \<^verbatim>\<open>resize_image\<close> computes for
  the smaller side the value \<^verbatim>\<open>int(other * (max_size / larger))\<close> in float arithmetic.  That
  value is truncated, not rounded: it is the floor of the exact proportional side, or one
  less.  When it is at least 1, \<^verbatim>\<open>resize_image\<close> returns the image with the larger side set
  to the maximum size and the other side set to that value; when it is below 1, the
  library rejects the size and \<^verbatim>\<open>resize_image\<close> raises \<^verbatim>\<open>ValueError\<close>.
\<close>

theorem resize_image_scales_truncating:
  assumes "size_wh img = (w, h)" "0 \<le> w" "w < 2 ^ 31" "0 \<le> h" "h < 2 ^ 31"
    and "1 \<le> m" "m \<le> 16384" "m < w \<or> m < h"
  shows "\<exists>d. d = \<lfloor>round_binary64 (of_int (min w h) *
                    round_binary64 (of_int m / of_int (max w h)))\<rfloor> \<and>
           (d = \<lfloor>(of_int (min w h) * of_int m / of_int (max w h) :: rat)\<rfloor> \<or>
            d = \<lfloor>(of_int (min w h) * of_int m / of_int (max w h) :: rat)\<rfloor> - 1) \<and>
           (1 \<le> d \<longrightarrow>
              resize_image img m =
                Inr (img\<lparr>size_wh := (if h < w then (m, d) else (d, m))\<rparr>)) \<and>
           (d < 1 \<longrightarrow> resize_image img m = Inl ValueError)"
proof -
  define d where "d = \<lfloor>round_binary64 (of_int (min w h) *
                    round_binary64 (of_int m / of_int (max w h)))\<rfloor>"
  have m0: "0 \<le> m" using assms(6) by simp
  have l: "m < max w h" "max w h < 2 ^ 31" "0 \<le> min w h" "min w h \<le> max w h"
    using assms(2-5,8) by (auto simp: min_def max_def)
  have near: "d = \<lfloor>(of_int (min w h) * of_int m / of_int (max w h) :: rat)\<rfloor> \<or>
            d = \<lfloor>(of_int (min w h) * of_int m / of_int (max w h) :: rat)\<rfloor> - 1"
    unfolding d_def using m0 l assms(7) by (rule scaled_near_exact)
  have req: "resize_image img m = image_resize img (if h < w then (m, d) else (d, m))"
    unfolding d_def using assms(1-5) m0 assms(8) by (rule resize_image_request(1))
  have ok: "resize_image img m = Inr (img\<lparr>size_wh := (if h < w then (m, d) else (d, m))\<rparr>)"
    if "1 \<le> d"
    using that assms(6) req by (simp add: image_resize_def)
  have bad: "resize_image img m = Inl ValueError" if "d < 1"
    using that req by (simp add: image_resize_def)
  from near ok bad
  have "d = \<lfloor>round_binary64 (of_int (min w h) *
                    round_binary64 (of_int m / of_int (max w h)))\<rfloor> \<and>
           (d = \<lfloor>(of_int (min w h) * of_int m / of_int (max w h) :: rat)\<rfloor> \<or>
            d = \<lfloor>(of_int (min w h) * of_int m / of_int (max w h) :: rat)\<rfloor> - 1) \<and>
           (1 \<le> d \<longrightarrow>
              resize_image img m =
                Inr (img\<lparr>size_wh := (if h < w then (m, d) else (d, m))\<rparr>)) \<and>
           (d < 1 \<longrightarrow> resize_image img m = Inl ValueError)"
    by (simp add: d_def)
  then show ?thesis by (rule exI [of _ d])
qed

theorem resize_image_scales_truncating_witness:
  "size_wh (sized 10 7) = (10, 7) \<and> (0::int) \<le> 10 \<and> (10::int) < 2 ^ 31 \<and> (0::int) \<le> 7 \<and>
   (7::int) < 2 ^ 31 \<and> (1::int) \<le> 4 \<and> (4::int) \<le> 16384 \<and> ((4::int) < 10 \<or> (4::int) < 7) \<and>
   resize_image (sized 10 7) 4 = Inr (sized 4 2) \<and>
   \<lfloor>(of_int (min 10 7) * of_int 4 / of_int (max 10 7) :: rat)\<rfloor> = 2 \<and>
   (\<exists>d. (d = \<lfloor>(of_int (min 10 7) * of_int 4 / of_int (max 10 7) :: rat)\<rfloor> \<or>
         d = \<lfloor>(of_int (min 10 7) * of_int 4 / of_int (max 10 7) :: rat)\<rfloor> - 1) \<and>
        (1 \<le> d \<longrightarrow>
           resize_image (sized 10 7) 4 =
             Inr (sized 10 7\<lparr>size_wh := (if (7::int) < 10 then (4, d) else (d, 4))\<rparr>)) \<and>
        (d < 1 \<longrightarrow> resize_image (sized 10 7) 4 = Inl ValueError))"
proof -
  have s: "size_wh (sized 10 7) = (10, 7)" by simp
  have b: "(0::int) \<le> 10" "(10::int) < 2 ^ 31" "(0::int) \<le> 7" "(7::int) < 2 ^ 31"
    "(1::int) \<le> 4" "(4::int) \<le> 16384" "(4::int) < 10 \<or> (4::int) < 7" by simp_all
  have r: "resize_image (sized 10 7) 4 = Inr (sized 4 2)" by code_simp
  have f: "\<lfloor>(of_int (min 10 7) * of_int 4 / of_int (max 10 7) :: rat)\<rfloor> = 2" by code_simp
  from resize_image_scales_truncating [OF s b]
  have "\<exists>d. (d = \<lfloor>(of_int (min 10 7) * of_int 4 / of_int (max 10 7) :: rat)\<rfloor> \<or>
         d = \<lfloor>(of_int (min 10 7) * of_int 4 / of_int (max 10 7) :: rat)\<rfloor> - 1) \<and>
        (1 \<le> d \<longrightarrow>
           resize_image (sized 10 7) 4 =
             Inr (sized 10 7\<lparr>size_wh := (if (7::int) < 10 then (4, d) else (d, 4))\<rparr>)) \<and>
        (d < 1 \<longrightarrow> resize_image (sized 10 7) 4 = Inl ValueError)"
    by blast
  with s b r f show ?thesis by blast
qed

text \<open>
  C6.  For an image with sides below \<open>2^31\<close> and a maximum size that is not negative:
  every image that \<^verbatim>\<open>resize_image\<close> returns has neither side greater than the side it had,
  and \<^verbatim>\<open>resize_image\<close> applied to it with the same maximum size returns it unchanged, so
  that applying \<^verbatim>\<open>resize_image\<close> twice is the same as applying it once.  An image is
  returned when the input fits, or when the maximum size and the side computed are at
  least 1; otherwise the library rejects the size computed and both the single and the
  double application raise \<^verbatim>\<open>ValueError\<close>.
\<close>

theorem resize_image_never_upscales_idempotent:
  assumes "size_wh img = (w, h)" "0 \<le> w" "w < 2 ^ 31" "0 \<le> h" "h < 2 ^ 31" "0 \<le> m"
  shows "(\<forall>img'. resize_image img m = Inr img' \<longrightarrow>
            fst (size_wh img') \<le> w \<and> snd (size_wh img') \<le> h \<and>
            resize_image img' m = Inr img') \<and>
         (case resize_image img m of Inl e \<Rightarrow> Inl e | Inr img' \<Rightarrow> resize_image img' m) =
           resize_image img m \<and>
         (if (w \<le> m \<and> h \<le> m) \<or>
             (1 \<le> m \<and> 1 \<le> \<lfloor>round_binary64 (of_int (min w h) *
                           round_binary64 (of_int m / of_int (max w h)))\<rfloor>)
          then \<exists>img'. resize_image img m = Inr img'
          else resize_image img m = Inl ValueError)"
proof -
  define d where "d = \<lfloor>round_binary64 (of_int (min w h) *
                    round_binary64 (of_int m / of_int (max w h)))\<rfloor>"
  have good: "fst (size_wh img') \<le> w \<and> snd (size_wh img') \<le> h \<and>
            resize_image img' m = Inr img'"
    if r: "resize_image img m = Inr img'" for img'
  proof (cases "w \<le> m \<and> h \<le> m")
    case True
    with assms(1) have "resize_image img m = Inr img" by (simp add: resize_image_fits)
    with r assms(1) show ?thesis by simp
  next
    case False
    then have nf: "m < w \<or> m < h" by linarith
    note q = resize_image_request [OF assms(1-6) nf, folded d_def]
    from q(1) r have i: "image_resize img (if h < w then (m, d) else (d, m)) = Inr img'"
      by simp
    show ?thesis
    proof (cases "h < w")
      case True
      with i have s: "size_wh img' = (m, d)" by (auto dest!: image_resize_result)
      from True nf have "m < w" by linarith
      moreover from True q(3) have "d \<le> h" by simp
      moreover have "resize_image img' m = Inr img'"
        using s _ q(4) by (rule resize_image_fits) simp
      ultimately show ?thesis using s by simp
    next
      case False
      with i have s: "size_wh img' = (d, m)" by (auto dest!: image_resize_result)
      from False nf have "m < h" by linarith
      moreover from False q(3) have "d \<le> w" by simp
      moreover have "resize_image img' m = Inr img'"
        using s q(4) by (rule resize_image_fits) simp
      ultimately show ?thesis using s by simp
    qed
  qed
  have twice: "(case resize_image img m of Inl e \<Rightarrow> Inl e | Inr img' \<Rightarrow> resize_image img' m) =
           resize_image img m"
    using good by (cases "resize_image img m") simp_all
  have total: "if (w \<le> m \<and> h \<le> m) \<or> (1 \<le> m \<and> 1 \<le> d)
          then \<exists>img'. resize_image img m = Inr img'
          else resize_image img m = Inl ValueError"
  proof (cases "w \<le> m \<and> h \<le> m")
    case True
    with assms(1) show ?thesis by (simp add: resize_image_fits)
  next
    case False
    then have nf: "m < w \<or> m < h" by linarith
    note q = resize_image_request [OF assms(1-6) nf, folded d_def]
    from False q(1) show ?thesis by (auto simp: image_resize_def)
  qed
  from good twice total show ?thesis unfolding d_def by blast
qed

theorem resize_image_never_upscales_idempotent_witness:
  "size_wh (sized 22 22) = (22, 22) \<and> (0::int) \<le> 22 \<and> (22::int) < 2 ^ 31 \<and> (0::int) \<le> 15 \<and>
   resize_image (sized 22 22) 15 = Inr (sized 14 15) \<and>
   fst (size_wh (sized 14 15)) \<le> 22 \<and> snd (size_wh (sized 14 15)) \<le> 22 \<and>
   resize_image (sized 14 15) 15 = Inr (sized 14 15) \<and>
   (case resize_image (sized 22 22) 15 of Inl e \<Rightarrow> Inl e
    | Inr img' \<Rightarrow> resize_image img' 15) = resize_image (sized 22 22) 15"
proof -
  have s: "size_wh (sized 22 22) = (22, 22)" by simp
  have b: "(0::int) \<le> 22" "(22::int) < 2 ^ 31" "(0::int) \<le> 22" "(22::int) < 2 ^ 31"
    "(0::int) \<le> 15" by simp_all
  have r1: "resize_image (sized 22 22) 15 = Inr (sized 14 15)" by code_simp
  from resize_image_never_upscales_idempotent [OF s b] r1
  have p: "fst (size_wh (sized 14 15)) \<le> 22 \<and> snd (size_wh (sized 14 15)) \<le> 22 \<and>
      resize_image (sized 14 15) 15 = Inr (sized 14 15)"
    by blast
  from resize_image_never_upscales_idempotent [OF s b]
  have t: "(case resize_image (sized 22 22) 15 of Inl e \<Rightarrow> Inl e
    | Inr img' \<Rightarrow> resize_image img' 15) = resize_image (sized 22 22) 15"
    by blast
  from s b(1,2,5) r1 p t show ?thesis by (intro conjI) simp_all
qed

section \<open>Properties of the extractor\<close>

subsection \<open>The sampling plan of a GIF\<close>

lemma sequence_err_map:
  "(\<And>x. x \<in> set xs \<Longrightarrow> f x = Inr (g x)) \<Longrightarrow> sequence_err (map f xs) = Inr (map g xs)"
  by (induction xs) simp_all

lemma gif_step:
  assumes "1 \<le> n" "n < T" "T < 2 ^ 25"
  defines "s \<equiv> round_binary64 (of_int T / of_int n)"
  shows "1 + 1 / 2 ^ 26 \<le> s" and "of_int n * s \<le> of_int T + 1 / 2 ^ 27"
proof -
  define N :: rat where "N = of_int n"
  define R :: rat where "R = of_int T"
  define r where "r = R / N"
  have N: "1 \<le> N" "N < 2 ^ 25"
    using assms of_int_less_pow [of n 25] by (simp_all add: N_def)
  have R: "N + 1 \<le> R" "R < 2 ^ 25"
    using assms of_int_less_pow [of T 25] by (simp_all add: N_def R_def)
  have r0: "0 \<le> r" using N R by (simp add: r_def)
  have "1 / N \<le> (R - N) / N" using N R by (intro divide_right_mono) auto
  also have "\<dots> = r - 1" using N by (simp add: r_def field_simps)
  finally have "1 / N \<le> r - 1" .
  moreover have "1 / 2 ^ 25 \<le> 1 / N" using N by (simp add: field_simps)
  ultimately have r1: "1 + 1 / 2 ^ 25 \<le> r" by linarith
  have sb: "s \<le> r + r / 2 ^ 53 + 1 / 2 ^ 100" "r - r / 2 ^ 53 - 1 / 2 ^ 100 \<le> s"
    unfolding s_def r_def R_def N_def using r0 [unfolded r_def R_def N_def]
    by (rule round_binary64_error_weak)+
  from sb(2) r1 show "1 + 1 / 2 ^ 26 \<le> s" by simp
  have "N * s \<le> N * (r + r / 2 ^ 53 + 1 / 2 ^ 100)"
    using sb(1) N by (intro mult_left_mono) auto
  also have "\<dots> = R + R / 2 ^ 53 + N / 2 ^ 100" using N by (simp add: r_def field_simps)
  finally have "N * s \<le> R + R / 2 ^ 53 + N / 2 ^ 100" .
  with N R have "N * s \<le> R + 1 / 2 ^ 27" by simp
  then show "of_int n * s \<le> of_int T + 1 / 2 ^ 27" by (simp add: N_def R_def)
qed

lemma gif_product:
  assumes "1 \<le> n" "n < T" "T < 2 ^ 25" "0 \<le> i" "i \<le> n - 1"
  defines "s \<equiv> round_binary64 (of_int T / of_int n)"
  shows "0 \<le> of_int i * s" and "of_int i * s \<le> of_int T - 1"
proof -
  have s: "1 + 1 / 2 ^ 26 \<le> s" "of_int n * s \<le> of_int T + 1 / 2 ^ 27"
    unfolding s_def using assms(1-3) by (rule gif_step)+
  then have s0: "0 \<le> s" by simp
  show "0 \<le> of_int i * s" using assms(4) s0 by simp
  have "of_int i * s \<le> of_int (n - 1) * s"
    using assms(5) s0 by (intro mult_right_mono) auto
  also have "\<dots> = of_int n * s - s" by (simp add: algebra_simps)
  also have "\<dots> \<le> of_int T - 1" using s by simp
  finally show "of_int i * s \<le> of_int T - 1" .
qed

lemma gif_index_less:
  assumes "1 \<le> n" "n < T" "T < 2 ^ 25" "0 \<le> i" "i < j" "j \<le> n - 1"
  defines "s \<equiv> round_binary64 (of_int T / of_int n)"
  shows "\<lfloor>round_binary64 (of_int i * s)\<rfloor> < \<lfloor>round_binary64 (of_int j * s)\<rfloor>"
proof -
  define R :: rat where "R = of_int T"
  define X where "X = of_int i * s"
  define Y where "Y = of_int j * s"
  define F :: rat where "F = of_int \<lfloor>round_binary64 X\<rfloor>"
  have s: "1 + 1 / 2 ^ 26 \<le> s"
    unfolding s_def using assms(1-3) by (rule gif_step)
  then have s0: "0 \<le> s" by simp
  have R: "R < 2 ^ 25" unfolding R_def using assms(3) by (rule of_int_less_pow)
  have i': "i \<le> n - 1" and j0: "0 \<le> j" using assms by simp_all
  have xi: "0 \<le> X" "X \<le> R - 1"
    unfolding X_def R_def s_def using assms(1-4) i' by (rule gif_product)+
  have xj: "0 \<le> Y" "Y \<le> R - 1"
    unfolding Y_def R_def s_def using assms(1-3) j0 assms(6) by (rule gif_product)+
  have "of_int (i + 1) * s \<le> of_int j * s"
    using assms(5) s0 by (intro mult_right_mono) auto
  then have step: "X + s \<le> Y" by (simp add: algebra_simps X_def Y_def)
  have e: "round_binary64 X \<le> X + X / 2 ^ 53 + 1 / 2 ^ 100"
    using xi(1) by (rule round_binary64_error_weak)
  have f: "F \<le> round_binary64 X" unfolding F_def by (rule of_int_floor_le)
  have "F + 1 \<le> Y" using e f step s xi(2) R by simp
  then have le: "of_int (\<lfloor>round_binary64 X\<rfloor> + 1) \<le> Y" by (simp add: F_def)
  have lt: "Y < 2 ^ 53" using xj(2) R by simp
  from round_binary64_ge_int [OF xj(1) lt le]
  have "\<lfloor>round_binary64 X\<rfloor> + 1 \<le> \<lfloor>round_binary64 Y\<rfloor>"
    by (subst le_floor_iff)
  then show ?thesis by (simp add: X_def Y_def)
qed

lemma gif_index_range:
  assumes "1 \<le> n" "n < T" "T < 2 ^ 25" "0 \<le> i" "i \<le> n - 1"
  defines "s \<equiv> round_binary64 (of_int T / of_int n)"
  shows "0 \<le> \<lfloor>round_binary64 (of_int i * s)\<rfloor>" and "\<lfloor>round_binary64 (of_int i * s)\<rfloor> < T"
proof -
  define R :: rat where "R = of_int T"
  define X where "X = of_int i * s"
  have R: "R < 2 ^ 25" unfolding R_def using assms(3) by (rule of_int_less_pow)
  have xi: "0 \<le> X" "X \<le> R - 1"
    unfolding X_def R_def s_def using assms(1-5) by (rule gif_product)+
  from round_binary64_nonneg [OF xi(1)]
  show "0 \<le> \<lfloor>round_binary64 (of_int i * s)\<rfloor>" by (simp add: X_def)
  have "round_binary64 X \<le> X + X / 2 ^ 53 + 1 / 2 ^ 100"
    using xi(1) by (rule round_binary64_error_weak)
  with xi(2) R have "round_binary64 X < R" by simp
  then have "\<lfloor>round_binary64 X\<rfloor> < T" unfolding R_def by (subst floor_less_iff)
  then show "\<lfloor>round_binary64 (of_int i * s)\<rfloor> < T" by (simp add: X_def)
qed

lemma gif_index_near_exact:
  assumes "1 \<le> n" "n < T" "T < 2 ^ 25" "0 \<le> i" "i \<le> n - 1"
  defines "s \<equiv> round_binary64 (of_int T / of_int n)"
    and "E \<equiv> (of_int i * of_int T / of_int n :: rat)"
  shows "\<lfloor>round_binary64 (of_int i * s)\<rfloor> = \<lfloor>E\<rfloor> \<or> \<lfloor>round_binary64 (of_int i * s)\<rfloor> = \<lfloor>E\<rfloor> - 1"
proof -
  define N :: rat where "N = of_int n"
  define R :: rat where "R = of_int T"
  define I :: rat where "I = of_int i"
  define r where "r = R / N"
  define X where "X = I * s"
  have N: "1 \<le> N" "N < 2 ^ 25"
    using assms of_int_less_pow [of n 25] by (simp_all add: N_def)
  have R: "N + 1 \<le> R" "R < 2 ^ 25"
    using assms of_int_less_pow [of T 25] by (simp_all add: N_def R_def)
  have I: "0 \<le> I" "I \<le> N - 1" using assms by (simp_all add: I_def N_def)
  have r0: "0 \<le> r" using N R by (simp add: r_def)
  have E_eq: "E = I * r" by (simp add: E_def I_def r_def R_def N_def)
  have E0: "0 \<le> E" unfolding E_eq using I(1) r0 by (rule mult_nonneg_nonneg)
  have "I * r \<le> N * r" using I N r0 by (intro mult_right_mono) auto
  also have "\<dots> = R" using N by (simp add: r_def)
  finally have E_le: "E \<le> R" by (simp add: E_eq)
  have sb: "s \<le> r + r / 2 ^ 53 + 1 / 2 ^ 100" "r - r / 2 ^ 53 - 1 / 2 ^ 100 \<le> s"
    unfolding s_def r_def R_def N_def using r0 [unfolded r_def R_def N_def]
    by (rule round_binary64_error_weak)+
  have "X \<le> I * (r + r / 2 ^ 53 + 1 / 2 ^ 100)"
    unfolding X_def using sb(1) I by (intro mult_left_mono) auto
  also have "\<dots> = E + E / 2 ^ 53 + I / 2 ^ 100" by (simp add: E_eq field_simps)
  finally have Xhi: "X \<le> E + E / 2 ^ 53 + I / 2 ^ 100" .
  have "I * (r - r / 2 ^ 53 - 1 / 2 ^ 100) \<le> X"
    unfolding X_def using sb(2) I by (intro mult_left_mono) auto
  also have "I * (r - r / 2 ^ 53 - 1 / 2 ^ 100) = E - E / 2 ^ 53 - I / 2 ^ 100"
    by (simp add: E_eq field_simps)
  finally have Xlo: "E - E / 2 ^ 53 - I / 2 ^ 100 \<le> X" .
  have X0: "0 \<le> X"
    unfolding X_def I_def s_def using assms(1-5) by (rule gif_product)
  have rb: "round_binary64 X \<le> X + X / 2 ^ 53 + 1 / 2 ^ 100"
    "X - X / 2 ^ 53 - 1 / 2 ^ 100 \<le> round_binary64 X"
    using X0 by (rule round_binary64_error_weak)+
  have hi: "round_binary64 X < E + 1 / 2 ^ 26"
    using rb(1) Xhi E_le E0 R I N by simp
  have lo: "E - 1 / 2 ^ 26 < round_binary64 X"
    using rb(2) Xlo Xhi E_le E0 R I N by simp
  have gap: "E \<le> of_int \<lfloor>E\<rfloor> + 1 - 1 / N"
    using floor_quotient_gap [of n "i * T"] assms(1)
    by (simp add: E_def N_def)
  have "1 / N > 1 / 2 ^ 25" using N by (simp add: field_simps)
  with gap hi have "round_binary64 X < of_int (\<lfloor>E\<rfloor> + 1)" by simp
  then have "\<lfloor>round_binary64 X\<rfloor> < \<lfloor>E\<rfloor> + 1" by (subst floor_less_iff)
  then have up: "\<lfloor>round_binary64 X\<rfloor> \<le> \<lfloor>E\<rfloor>" by simp
  have "of_int \<lfloor>E\<rfloor> \<le> E" by (rule of_int_floor_le)
  moreover have "(1::rat) / 2 ^ 26 < 1" by simp
  ultimately have "of_int \<lfloor>E\<rfloor> - 1 \<le> round_binary64 X" using lo by linarith
  then have "of_int (\<lfloor>E\<rfloor> - 1) \<le> round_binary64 X" by simp
  then have down: "\<lfloor>E\<rfloor> - 1 \<le> \<lfloor>round_binary64 X\<rfloor>" by (subst le_floor_iff)
  from up down show ?thesis unfolding X_def I_def by linarith
qed

lemma frame_indices_sampled:
  assumes "1 \<le> n" "n < T" "T < 2 ^ 25"
  shows "frame_indices T n =
     Inr (map (\<lambda>i. \<lfloor>round_binary64 (of_int i * round_binary64 (of_int T / of_int n))\<rfloor>)
            [0..n - 1])"
proof -
  define s where "s = round_binary64 (of_int T / of_int n)"
  have T0: "0 \<le> T" and T53: "T < 2 ^ 53" and n0: "0 < n" using assms by simp_all
  have d: "py_int_truediv T n = Inr (Fin s)"
    unfolding s_def using T0 T53 n0 by (rule py_int_truediv_finite)
  have sb: "1 + 1 / 2 ^ 26 \<le> s" "of_int n * s \<le> of_int T + 1 / 2 ^ 27"
    unfolding s_def using assms by (rule gif_step)+
  have s0: "0 \<le> s" using sb(1) by simp
  have "1 * s \<le> of_int n * s" using assms(1) s0 by (intro mult_right_mono) auto
  moreover have "(of_int T :: rat) < 2 ^ 25" using assms(3) by (rule of_int_less_pow)
  ultimately have s64: "s < 2 ^ 64" using sb(2) by simp
  have each: "py_int_of_scaled i (Fin s) = Inr \<lfloor>round_binary64 (of_int i * s)\<rfloor>"
    if "i \<in> set [0..n - 1]" for i
  proof -
    from that assms have "0 \<le> i" "i < 2 ^ 53" by simp_all
    then show ?thesis using s0 s64 by (rule py_int_of_scaled_finite)
  qed
  have "sequence_err (map (\<lambda>i. py_int_of_scaled i (Fin s)) [0..n - 1]) =
      Inr (map (\<lambda>i. \<lfloor>round_binary64 (of_int i * s)\<rfloor>) [0..n - 1])"
    using each by (rule sequence_err_map)
  with d assms(2) show ?thesis by (simp add: frame_indices_def s_def)
qed

text \<open>
  C1, as stated, fails.  For 30 frames and 22 requested, the index at position 11 is
  \<^verbatim>\<open>int(11 * (30 / 22))\<close>.  The float \<^verbatim>\<open>30 / 22\<close> lies below 15/11, the product is rounded to
  the float just below 15, and the index is 14; the floor of the exact product is 15.
\<close>

theorem frame_indices_exact_floor_counterexample:
  "frame_indices 30 22 =
     Inr [0, 1, 2, 4, 5, 6, 8, 9, 10, 12, 13, 14, 16, 17, 19, 20, 21, 23, 24, 25, 27, 28] \<and>
   [0, 1, 2, 4, 5, 6, 8, 9, 10, 12, 13, 14, 16, 17, 19, 20, 21, 23, 24, 25, 27, 28] ! 11
     = (14 :: int) \<and>
   \<lfloor>(11 :: rat) * (30 / 22)\<rfloor> = 15"
proof -
  have step: "py_int_truediv 30 22 = Inr (Fin (6141272219141585 / 4503599627370496))"
    by (simp add: float_eval round_binary64_eqI [where e = 0 and k = 6141272219141585])
  have i0: "py_int_of_scaled 0 (Fin (6141272219141585 / 4503599627370496)) = Inr 0"
    by (simp add: float_eval)
  have i1: "py_int_of_scaled 1 (Fin (6141272219141585 / 4503599627370496)) = Inr 1"
    by (simp add: float_eval round_binary64_eqI [where e = 0 and k = 6141272219141585])
  have i2: "py_int_of_scaled 2 (Fin (6141272219141585 / 4503599627370496)) = Inr 2"
    by (simp add: float_eval round_binary64_eqI [where e = 1 and k = 6141272219141585])
  have i3: "py_int_of_scaled 3 (Fin (6141272219141585 / 4503599627370496)) = Inr 4"
    by (simp add: float_eval round_binary64_eqI [where e = 2 and k = 4605954164356189])
  have i4: "py_int_of_scaled 4 (Fin (6141272219141585 / 4503599627370496)) = Inr 5"
    by (simp add: float_eval round_binary64_eqI [where e = 2 and k = 6141272219141585])
  have i5: "py_int_of_scaled 5 (Fin (6141272219141585 / 4503599627370496)) = Inr 6"
    by (simp add: float_eval round_binary64_eqI [where e = 2 and k = 7676590273926981])
  have i6: "py_int_of_scaled 6 (Fin (6141272219141585 / 4503599627370496)) = Inr 8"
    by (simp add: float_eval round_binary64_eqI [where e = 3 and k = 4605954164356189])
  have i7: "py_int_of_scaled 7 (Fin (6141272219141585 / 4503599627370496)) = Inr 9"
    by (simp add: float_eval round_binary64_eqI [where e = 3 and k = 5373613191748887])
  have i8: "py_int_of_scaled 8 (Fin (6141272219141585 / 4503599627370496)) = Inr 10"
    by (simp add: float_eval round_binary64_eqI [where e = 3 and k = 6141272219141585])
  have i9: "py_int_of_scaled 9 (Fin (6141272219141585 / 4503599627370496)) = Inr 12"
    by (simp add: float_eval round_binary64_eqI [where e = 3 and k = 6908931246534283])
  have i10: "py_int_of_scaled 10 (Fin (6141272219141585 / 4503599627370496)) = Inr 13"
    by (simp add: float_eval round_binary64_eqI [where e = 3 and k = 7676590273926981])
  have i11: "py_int_of_scaled 11 (Fin (6141272219141585 / 4503599627370496)) = Inr 14"
    by (simp add: float_eval round_binary64_eqI [where e = 3 and k = 8444249301319679])
  have i12: "py_int_of_scaled 12 (Fin (6141272219141585 / 4503599627370496)) = Inr 16"
    by (simp add: float_eval round_binary64_eqI [where e = 4 and k = 4605954164356189])
  have i13: "py_int_of_scaled 13 (Fin (6141272219141585 / 4503599627370496)) = Inr 17"
    by (simp add: float_eval round_binary64_eqI [where e = 4 and k = 4989783678052538])
  have i14: "py_int_of_scaled 14 (Fin (6141272219141585 / 4503599627370496)) = Inr 19"
    by (simp add: float_eval round_binary64_eqI [where e = 4 and k = 5373613191748887])
  have i15: "py_int_of_scaled 15 (Fin (6141272219141585 / 4503599627370496)) = Inr 20"
    by (simp add: float_eval round_binary64_eqI [where e = 4 and k = 5757442705445236])
  have i16: "py_int_of_scaled 16 (Fin (6141272219141585 / 4503599627370496)) = Inr 21"
    by (simp add: float_eval round_binary64_eqI [where e = 4 and k = 6141272219141585])
  have i17: "py_int_of_scaled 17 (Fin (6141272219141585 / 4503599627370496)) = Inr 23"
    by (simp add: float_eval round_binary64_eqI [where e = 4 and k = 6525101732837934])
  have i18: "py_int_of_scaled 18 (Fin (6141272219141585 / 4503599627370496)) = Inr 24"
    by (simp add: float_eval round_binary64_eqI [where e = 4 and k = 6908931246534283])
  have i19: "py_int_of_scaled 19 (Fin (6141272219141585 / 4503599627370496)) = Inr 25"
    by (simp add: float_eval round_binary64_eqI [where e = 4 and k = 7292760760230632])
  have i20: "py_int_of_scaled 20 (Fin (6141272219141585 / 4503599627370496)) = Inr 27"
    by (simp add: float_eval round_binary64_eqI [where e = 4 and k = 7676590273926981])
  have i21: "py_int_of_scaled 21 (Fin (6141272219141585 / 4503599627370496)) = Inr 28"
    by (simp add: float_eval round_binary64_eqI [where e = 4 and k = 8060419787623330])
  have plan: "frame_indices 30 22 =
     Inr [0, 1, 2, 4, 5, 6, 8, 9, 10, 12, 13, 14, 16, 17, 19, 20, 21, 23, 24, 25, 27, 28]"
    by (simp add: frame_indices_def step i0 i1 i2 i3 i4 i5 i6 i7 i8 i9 i10 i11 i12 i13 i14 i15 i16 i17 i18 i19 i20 i21 upto_rec1)
  have nth: "[0, 1, 2, 4, 5, 6, 8, 9, 10, 12, 13, 14, 16, 17, 19, 20, 21, 23, 24, 25, 27, 28] ! 11
     = (14 :: int)" by simp
  have exact: "\<lfloor>(11 :: rat) * (30 / 22)\<rfloor> = 15" by code_simp
  from plan nth exact show ?thesis by (intro conjI)
qed

text \<open>
  C1, amended.  For at least one requested frame and fewer than \<open>2^25\<close> frames in total:
  if the total does not exceed the request, the plan is every index from 0 to the total
  minus one, in order; otherwise it has as many indices as requested, is strictly
  increasing, starts with 0, stays below the total, and its element at position \<open>i\<close> is
  \<^verbatim>\<open>int(i * (total_frames / num_frames))\<close> in float arithmetic, which is the floor of the exact
  product or one less.
\<close>

theorem frame_indices_plan:
  assumes "1 \<le> n" "1 \<le> T" "T < 2 ^ 25"
  shows "(T \<le> n \<longrightarrow> frame_indices T n = Inr [0..T - 1]) \<and>
         (n < T \<longrightarrow>
            (\<exists>xs. frame_indices T n = Inr xs \<and> length xs = nat n \<and> sorted_wrt (<) xs \<and>
               hd xs = 0 \<and> (\<forall>x\<in>set xs. 0 \<le> x \<and> x < T) \<and>
               (\<forall>i. 0 \<le> i \<and> i < n \<longrightarrow>
                  xs ! nat i =
                    \<lfloor>round_binary64 (of_int i * round_binary64 (of_int T / of_int n))\<rfloor> \<and>
                  (xs ! nat i = \<lfloor>(of_int i * of_int T / of_int n :: rat)\<rfloor> \<or>
                   xs ! nat i = \<lfloor>(of_int i * of_int T / of_int n :: rat)\<rfloor> - 1))))"
proof (intro conjI impI)
  assume "T \<le> n"
  then show "frame_indices T n = Inr [0..T - 1]" by (simp add: frame_indices_def)
next
  assume nT: "n < T"
  define f where
    "f = (\<lambda>i. \<lfloor>round_binary64 (of_int i * round_binary64 (of_int T / of_int n))\<rfloor>)"
  define xs where "xs = map f [0..n - 1]"
  have r: "frame_indices T n = Inr xs"
    unfolding xs_def f_def using assms(1) nT assms(3) by (rule frame_indices_sampled)
  have len: "length xs = nat n" using assms(1) by (simp add: xs_def)
  have "sorted_wrt (\<lambda>i j. f i < f j) [0..n - 1]"
  proof (rule sorted_wrt_mono_rel [of _ "(<)"])
    fix i j assume "i \<in> set [0..n - 1]" "j \<in> set [0..n - 1]" "i < j"
    then have "0 \<le> i" "i < j" "j \<le> n - 1" by simp_all
    with assms(1) nT assms(3) show "f i < f j" unfolding f_def by (rule gif_index_less)
  qed simp
  then have srt: "sorted_wrt (<) xs" by (simp add: xs_def sorted_wrt_map)
  have "[0..n - 1] = 0 # [1..n - 1]" using assms(1) by (simp add: upto_rec1)
  then have "hd xs = f 0" by (simp add: xs_def)
  also have "f 0 = 0" by (simp add: f_def round_binary64_def)
  finally have h: "hd xs = 0" .
  have rng: "\<forall>x\<in>set xs. 0 \<le> x \<and> x < T"
  proof
    fix x assume "x \<in> set xs"
    then obtain i where i: "0 \<le> i" "i \<le> n - 1" and x: "x = f i" by (auto simp: xs_def)
    from gif_index_range [OF assms(1) nT assms(3) i] x show "0 \<le> x \<and> x < T"
      by (simp add: f_def)
  qed
  have nth: "xs ! nat i = f i" if "0 \<le> i" "i < n" for i
    using that by (simp add: xs_def)
  have near: "f i = \<lfloor>(of_int i * of_int T / of_int n :: rat)\<rfloor> \<or>
      f i = \<lfloor>(of_int i * of_int T / of_int n :: rat)\<rfloor> - 1" if "0 \<le> i" "i < n" for i
  proof -
    from that have "i \<le> n - 1" by simp
    with assms(1) nT assms(3) that(1) show ?thesis unfolding f_def
      by (rule gif_index_near_exact)
  qed
  have every: "\<forall>i. 0 \<le> i \<and> i < n \<longrightarrow>
                  xs ! nat i = f i \<and>
                  (xs ! nat i = \<lfloor>(of_int i * of_int T / of_int n :: rat)\<rfloor> \<or>
                   xs ! nat i = \<lfloor>(of_int i * of_int T / of_int n :: rat)\<rfloor> - 1)"
  proof (intro allI impI)
    fix i assume "0 \<le> i \<and> i < n"
    then have a: "0 \<le> i" "i < n" by simp_all
    show "xs ! nat i = f i \<and>
                  (xs ! nat i = \<lfloor>(of_int i * of_int T / of_int n :: rat)\<rfloor> \<or>
                   xs ! nat i = \<lfloor>(of_int i * of_int T / of_int n :: rat)\<rfloor> - 1)"
      using near [OF a] by (simp only: nth [OF a] simp_thms)
  qed
  from r len srt h rng every
  have body: "frame_indices T n = Inr xs \<and> length xs = nat n \<and> sorted_wrt (<) xs \<and>
               hd xs = 0 \<and> (\<forall>x\<in>set xs. 0 \<le> x \<and> x < T) \<and>
               (\<forall>i. 0 \<le> i \<and> i < n \<longrightarrow>
                  xs ! nat i = f i \<and>
                  (xs ! nat i = \<lfloor>(of_int i * of_int T / of_int n :: rat)\<rfloor> \<or>
                   xs ! nat i = \<lfloor>(of_int i * of_int T / of_int n :: rat)\<rfloor> - 1))"
    by (intro conjI)
  show "\<exists>xs. frame_indices T n = Inr xs \<and> length xs = nat n \<and> sorted_wrt (<) xs \<and>
               hd xs = 0 \<and> (\<forall>x\<in>set xs. 0 \<le> x \<and> x < T) \<and>
               (\<forall>i. 0 \<le> i \<and> i < n \<longrightarrow>
                  xs ! nat i =
                    \<lfloor>round_binary64 (of_int i * round_binary64 (of_int T / of_int n))\<rfloor> \<and>
                  (xs ! nat i = \<lfloor>(of_int i * of_int T / of_int n :: rat)\<rfloor> \<or>
                   xs ! nat i = \<lfloor>(of_int i * of_int T / of_int n :: rat)\<rfloor> - 1))"
    by (rule exI [of _ xs]) (rule body [unfolded f_def])
qed

theorem frame_indices_plan_witness:
  "(1::int) \<le> 3 \<and> (1::int) \<le> 10 \<and> (10::int) < 2 ^ 25 \<and> (3::int) < 10 \<and>
   frame_indices 10 3 = Inr [0, 3, 6] \<and> frame_indices 10 4 = Inr [0, 2, 5, 7] \<and>
   (1::int) \<le> 7 \<and> (3::int) \<le> 7 \<and> frame_indices 3 7 = Inr [0, 1, 2] \<and>
   (\<exists>xs. frame_indices 10 3 = Inr xs \<and> length xs = 3 \<and> sorted_wrt (<) xs \<and> hd xs = 0 \<and>
      (\<forall>x\<in>set xs. 0 \<le> x \<and> x < 10))"
proof -
  have a: "(1::int) \<le> 3" "(1::int) \<le> 10" "(10::int) < 2 ^ 25" by simp_all
  have a': "(3::int) < 10" by simp
  have b: "(1::int) \<le> 7" "(1::int) \<le> 3" "(3::int) < 2 ^ 25" by simp_all
  have b': "(3::int) \<le> 7" by simp
  have stepa: "py_int_truediv 10 3 = Inr (Fin (7505999378950827 / 2251799813685248))"
    by (simp add: float_eval round_binary64_eqI [where e = 1 and k = 7505999378950827])
  have i0a: "py_int_of_scaled 0 (Fin (7505999378950827 / 2251799813685248)) = Inr 0"
    by (simp add: float_eval)
  have i1a: "py_int_of_scaled 1 (Fin (7505999378950827 / 2251799813685248)) = Inr 3"
    by (simp add: float_eval round_binary64_eqI [where e = 1 and k = 7505999378950827])
  have i2a: "py_int_of_scaled 2 (Fin (7505999378950827 / 2251799813685248)) = Inr 6"
    by (simp add: float_eval round_binary64_eqI [where e = 2 and k = 7505999378950827])
  have e1: "frame_indices 10 3 = Inr [0, 3, 6]"
    by (simp add: frame_indices_def stepa i0a i1a i2a upto_rec1)
  have stepb: "py_int_truediv 10 4 = Inr (Fin (5 / 2))"
    by (simp add: float_eval round_binary64_eqI [where e = 1 and k = 5629499534213120])
  have i0b: "py_int_of_scaled 0 (Fin (5 / 2)) = Inr 0"
    by (simp add: float_eval)
  have i1b: "py_int_of_scaled 1 (Fin (5 / 2)) = Inr 2"
    by (simp add: float_eval round_binary64_eqI [where e = 1 and k = 5629499534213120])
  have i2b: "py_int_of_scaled 2 (Fin (5 / 2)) = Inr 5"
    by (simp add: float_eval round_binary64_eqI [where e = 2 and k = 5629499534213120])
  have i3b: "py_int_of_scaled 3 (Fin (5 / 2)) = Inr 7"
    by (simp add: float_eval round_binary64_eqI [where e = 2 and k = 8444249301319680])
  have e2: "frame_indices 10 4 = Inr [0, 2, 5, 7]"
    by (simp add: frame_indices_def stepb i0b i1b i2b i3b upto_rec1)
  from frame_indices_plan [OF b] b' have "frame_indices 3 7 = Inr [0..3 - 1]"
    by blast
  then have e3: "frame_indices 3 7 = Inr [0, 1, 2]" by (simp add: upto_rec1)
  from frame_indices_plan [OF a] a'
  have "\<exists>xs. frame_indices 10 3 = Inr xs \<and> length xs = nat 3 \<and> sorted_wrt (<) xs \<and> hd xs = 0 \<and>
      (\<forall>x\<in>set xs. 0 \<le> x \<and> x < 10)"
    by blast
  then have p: "\<exists>xs. frame_indices 10 3 = Inr xs \<and> length xs = 3 \<and> sorted_wrt (<) xs \<and>
      hd xs = 0 \<and> (\<forall>x\<in>set xs. 0 \<le> x \<and> x < 10)"
    by simp
  from a a' b(1) b' e1 e2 e3 p show ?thesis by (intro conjI)
qed

subsection \<open>Probing with the imaging library\<close>

lemma gif_walk_count: "fst (gif_walk f) = 1 + int (length (later_durations f))"
proof -
  have "fst (foldl (\<lambda>(frame_count, total_duration) d.
              (frame_count + 1, total_duration + (case d of None \<Rightarrow> 100 | Some v \<Rightarrow> v)))
       acc ds) = fst acc + int (length ds)" for acc :: "int \<times> int" and ds
    by (induction ds arbitrary: acc) (simp_all add: case_prod_beta)
  then show ?thesis by (simp add: gif_walk_def)
qed

text \<open>
  C5.  A \<open>MediaInfo\<close> that the imaging-library branch returns has format \<^verbatim>\<open>gif\<close> whenever the
  container format is GIF, whatever the number of frames (one frame included), and has
  format \<^verbatim>\<open>image\<close>, one frame, duration 0 and frame rate 0 for every other container; so
  format \<^verbatim>\<open>image\<close> always comes with one frame, duration 0 and frame rate 0.  It is what
  \<^verbatim>\<open>get_media_info\<close> returns for an existing file that the library opens.
\<close>

theorem media_info_pil_classification:
  assumes "media_info_pil p f = Some info"
  shows "(container_format f = ''gif'' \<longrightarrow>
            format info = ''gif'' \<and> frame_count info = 1 + int (length (later_durations f))) \<and>
         (container_format f \<noteq> ''gif'' \<longrightarrow>
            format info = ''image'' \<and> frame_count info = 1 \<and> duration info = Fin 0 \<and>
            fps info = Fin 0) \<and>
         (format info = ''image'' \<longrightarrow>
            frame_count info = 1 \<and> duration info = Fin 0 \<and> fps info = Fin 0) \<and>
         (\<forall>env. path_exists env \<and> image_open env = Some f \<and> abspath env = p \<longrightarrow>
            get_media_info env = Inr (Some info))"
proof -
  obtain w h where wh: "pil_size f = (w, h)" by (cases "pil_size f")
  obtain n td where walk: "gif_walk f = (n, td)" by (cases "gif_walk f")
  have n: "n = 1 + int (length (later_durations f))"
    using gif_walk_count [of f] walk by simp
  have gif: "format info = ''gif'' \<and> frame_count info = n" if "container_format f = ''gif''"
    using assms that wh walk
    by (auto simp: media_info_pil_def Let_def
        split: if_splits sum.splits option.splits)
  have img: "format info = ''image'' \<and> frame_count info = 1 \<and> duration info = Fin 0 \<and>
            fps info = Fin 0" if "container_format f \<noteq> ''gif''"
    using assms that wh
    by (auto simp: media_info_pil_def Let_def
        split: if_splits option.splits)
  have inv: "frame_count info = 1 \<and> duration info = Fin 0 \<and> fps info = Fin 0"
    if "format info = ''image''"
  proof (cases "container_format f = ''gif''")
    case True
    with gif that show ?thesis by simp
  next
    case False
    with img show ?thesis by simp
  qed
  have ret: "get_media_info env = Inr (Some info)"
    if "path_exists env \<and> image_open env = Some f \<and> abspath env = p" for env
    using that assms by (simp add: get_media_info_def pil_branch_def)
  from gif img inv ret n show ?thesis by blast
qed

theorem media_info_pil_classification_witness:
  "media_info_pil ''/tmp/a.gif'' one_frame_gif = Some one_frame_gif_info \<and>
   container_format one_frame_gif = ''gif'' \<and> format one_frame_gif_info = ''gif'' \<and>
   frame_count one_frame_gif_info = 1 \<and> \<not> is_animated one_frame_gif_info \<and>
   media_info_pil ''/tmp/a.png'' png_file = Some png_file_info \<and>
   container_format png_file \<noteq> ''gif'' \<and> format png_file_info = ''image'' \<and>
   get_media_info \<lparr>abspath = ''/tmp/a.gif'', path_exists = True,
       image_open = Some one_frame_gif, run_ffprobe = None\<rparr> = Inr (Some one_frame_gif_info)"
proof -
  have g: "media_info_pil ''/tmp/a.gif'' one_frame_gif = Some one_frame_gif_info"
    by code_simp
  have gc: "container_format one_frame_gif = ''gif''" by code_simp
  have p: "media_info_pil ''/tmp/a.png'' png_file = Some png_file_info" by code_simp
  have pc: "container_format png_file \<noteq> ''gif''" by code_simp
  from media_info_pil_classification [OF g] gc
  have g1: "format one_frame_gif_info = ''gif''"
    and g2: "get_media_info \<lparr>abspath = ''/tmp/a.gif'', path_exists = True,
       image_open = Some one_frame_gif, run_ffprobe = None\<rparr> = Inr (Some one_frame_gif_info)"
    by simp_all
  from media_info_pil_classification [OF p] pc
  have p1: "format png_file_info = ''image''" by blast
  have n: "frame_count one_frame_gif_info = 1" "\<not> is_animated one_frame_gif_info"
    by (simp_all add: is_animated_def)
  from g gc g1 n p pc p1 g2 show ?thesis by (intro conjI)
qed

subsection \<open>The sampling plan of a video\<close>

lemma py_float_div_nonzero:
  "d \<noteq> Fin 0 \<Longrightarrow> \<exists>t. py_float_div a d = Inr t"
  by (cases a; cases d) auto

lemma to_pyfloat_finite:
  "0 \<le> x \<Longrightarrow> x < 2 ^ 200 \<Longrightarrow> to_pyfloat x = Fin (round_binary64 x)"
  by (simp add: to_pyfloat_def not_overflows)

lemma py_max_finite: "py_max (Fin a) (Fin b) = Fin (max a b)"
  by (auto simp: py_max_def max_def)

lemma round_binary64_tenth:
  "round_binary64 (1 / 10) = 3602879701896397 / 36028797018963968"
  by (simp add: round_binary64_eqI [where e = "- 4" and k = 7205759403792794])

text \<open>
  C7.  With the decoder present, media information \<open>info\<close> probed and between 1 and \<open>2^53\<close>
  frames requested: when the probed duration is at most 0, the command selects the frames
  with number below the request (the first ones in decode order), stops after that many
  frames and has no \<^verbatim>\<open>fps\<close> filter.  Otherwise the command has the \<^verbatim>\<open>fps\<close> filter and stops
  after as many frames as requested; for a finite positive duration the rate of the
  filter is the greater of the float 0.1 and the float quotient of the request by the
  duration, and for an infinite or undefined duration it is the float 0.1.
\<close>

theorem extract_frames_video_cmd_plan:
  assumes "get_media_info env = Inr (Some info)" "1 \<le> n" "n < 2 ^ 53"
  shows "(py_float_le (duration info) (Fin 0) \<longrightarrow>
            extract_frames_video_cmd True env video_path output_dir n prefix =
              Inr [Arg ''ffmpeg'', Arg ''-i'', Arg video_path, Arg ''-vf'', SelectBelow n,
                   Arg ''-vsync'', Arg ''vfr'', Arg ''-frames:v'', Count n, Arg ''-y'',
                   OutputPattern output_dir prefix] \<and>
            (\<forall>cmd r. extract_frames_video_cmd True env video_path output_dir n prefix = Inr cmd
               \<longrightarrow> FpsFilter r \<notin> set cmd)) \<and>
         (\<forall>d. duration info = Fin d \<and> 0 < d \<and> of_int n / d < 2 ^ 200 \<longrightarrow>
            extract_frames_video_cmd True env video_path output_dir n prefix =
              Inr [Arg ''ffmpeg'', Arg ''-i'', Arg video_path, Arg ''-vf'',
                   FpsFilter (Fin (max (round_binary64 (1 / 10))
                                       (round_binary64 (of_int n / d)))),
                   Arg ''-frames:v'', Count n, Arg ''-y'',
                   OutputPattern output_dir prefix]) \<and>
         (duration info = PInf \<or> duration info = NaN \<longrightarrow>
            extract_frames_video_cmd True env video_path output_dir n prefix =
              Inr [Arg ''ffmpeg'', Arg ''-i'', Arg video_path, Arg ''-vf'',
                   FpsFilter (Fin (round_binary64 (1 / 10))),
                   Arg ''-frames:v'', Count n, Arg ''-y'',
                   OutputPattern output_dir prefix]) \<and>
         (\<not> py_float_le (duration info) (Fin 0) \<longrightarrow>
            (\<exists>rate.
               extract_frames_video_cmd True env video_path output_dir n prefix =
                 Inr [Arg ''ffmpeg'', Arg ''-i'', Arg video_path, Arg ''-vf'',
                      FpsFilter rate, Arg ''-frames:v'', Count n, Arg ''-y'',
                      OutputPattern output_dir prefix]))"
proof -
  have n0: "0 \<le> n" using assms(2) by simp
  have nf: "py_float_of_int n = Inr (Fin (of_int n))"
    using n0 assms(3) by (rule py_float_of_int_exact)
  have tenth: "to_pyfloat (1 / 10) = Fin (round_binary64 (1 / 10))"
    by (rule to_pyfloat_finite) simp_all
  have first: "extract_frames_video_cmd True env video_path output_dir n prefix =
              Inr [Arg ''ffmpeg'', Arg ''-i'', Arg video_path, Arg ''-vf'', SelectBelow n,
                   Arg ''-vsync'', Arg ''vfr'', Arg ''-frames:v'', Count n, Arg ''-y'',
                   OutputPattern output_dir prefix]"
    if "py_float_le (duration info) (Fin 0)"
    using that assms(1) by (simp add: extract_frames_video_cmd_def)
  have nofps: "FpsFilter r \<notin> set cmd"
    if "py_float_le (duration info) (Fin 0)"
      and "extract_frames_video_cmd True env video_path output_dir n prefix = Inr cmd"
    for cmd r
    using first [OF that(1)] that(2) by auto
  have rate: "extract_frames_video_cmd True env video_path output_dir n prefix =
                 Inr [Arg ''ffmpeg'', Arg ''-i'', Arg video_path, Arg ''-vf'',
                      FpsFilter (py_max (Fin (round_binary64 (1 / 10))) t),
                      Arg ''-frames:v'', Count n, Arg ''-y'',
                      OutputPattern output_dir prefix]"
    if "\<not> py_float_le (duration info) (Fin 0)"
      and "py_float_div (Fin (of_int n)) (duration info) = Inr t" for t
    using assms(1) that nf tenth by (simp add: extract_frames_video_cmd_def)
  have finite: "extract_frames_video_cmd True env video_path output_dir n prefix =
              Inr [Arg ''ffmpeg'', Arg ''-i'', Arg video_path, Arg ''-vf'',
                   FpsFilter (Fin (max (round_binary64 (1 / 10))
                                       (round_binary64 (of_int n / d)))),
                   Arg ''-frames:v'', Count n, Arg ''-y'',
                   OutputPattern output_dir prefix]"
    if h: "duration info = Fin d \<and> 0 < d \<and> of_int n / d < 2 ^ 200" for d
  proof -
    from h have d: "duration info = Fin d" "0 < d" "of_int n / d < 2 ^ 200" by simp_all
    have pos: "\<not> py_float_le (duration info) (Fin 0)" using d by (simp add: py_float_le_def)
    have "(0::rat) \<le> of_int n / d" using n0 d(2) by simp
    then have "to_pyfloat (of_int n / d) = Fin (round_binary64 (of_int n / d))"
      using d(3) by (rule to_pyfloat_finite)
    then have "py_float_div (Fin (of_int n)) (duration info) =
        Inr (Fin (round_binary64 (of_int n / d)))"
      using d by simp
    from rate [OF pos this] show ?thesis by (simp only: py_max_finite)
  qed
  have unbounded: "extract_frames_video_cmd True env video_path output_dir n prefix =
              Inr [Arg ''ffmpeg'', Arg ''-i'', Arg video_path, Arg ''-vf'',
                   FpsFilter (Fin (round_binary64 (1 / 10))),
                   Arg ''-frames:v'', Count n, Arg ''-y'',
                   OutputPattern output_dir prefix]"
    if h: "duration info = PInf \<or> duration info = NaN"
  proof -
    from h have pos: "\<not> py_float_le (duration info) (Fin 0)"
      by (auto simp: py_float_le_def)
    from h have "py_float_div (Fin (of_int n)) (duration info) = Inr (Fin 0) \<or>
        py_float_div (Fin (of_int n)) (duration info) = Inr NaN"
      by auto
    then show ?thesis
    proof
      assume q: "py_float_div (Fin (of_int n)) (duration info) = Inr (Fin 0)"
      from rate [OF pos q] show ?thesis
        by (simp add: py_max_finite round_binary64_tenth)
    next
      assume q: "py_float_div (Fin (of_int n)) (duration info) = Inr NaN"
      from rate [OF pos q] show ?thesis by (simp add: py_max_def)
    qed
  qed
  have some: "\<exists>rate.
               extract_frames_video_cmd True env video_path output_dir n prefix =
                 Inr [Arg ''ffmpeg'', Arg ''-i'', Arg video_path, Arg ''-vf'',
                      FpsFilter rate, Arg ''-frames:v'', Count n, Arg ''-y'',
                      OutputPattern output_dir prefix]"
    if pos: "\<not> py_float_le (duration info) (Fin 0)"
  proof -
    from pos have "duration info \<noteq> Fin 0" by (auto simp: py_float_le_def)
    then obtain t where t: "py_float_div (Fin (of_int n)) (duration info) = Inr t"
      using py_float_div_nonzero by blast
    from rate [OF pos t] show ?thesis by blast
  qed
  from first nofps finite unbounded some show ?thesis by blast
qed

theorem extract_frames_video_cmd_plan_witness:
  "get_media_info (probed_clip ''/tmp/a.mkv'' None) = Inr (Some (clip_info ''/tmp/a.mkv'' 0 0)) \<and>
   (1::int) \<le> 6 \<and> (6::int) < 2 ^ 53 \<and>
   py_float_le (duration (clip_info ''/tmp/a.mkv'' 0 0)) (Fin 0) \<and>
   extract_frames_video_cmd True (probed_clip ''/tmp/a.mkv'' None) ''/tmp/a.mkv'' ''out'' 6
       ''raw'' =
     Inr [Arg ''ffmpeg'', Arg ''-i'', Arg ''/tmp/a.mkv'', Arg ''-vf'', SelectBelow 6,
          Arg ''-vsync'', Arg ''vfr'', Arg ''-frames:v'', Count 6, Arg ''-y'',
          OutputPattern ''out'' ''raw''] \<and>
   get_media_info (probed_clip ''/tmp/b.mp4'' (Some ''2.0'')) =
     Inr (Some (clip_info ''/tmp/b.mp4'' 2 60)) \<and>
   duration (clip_info ''/tmp/b.mp4'' 2 60) = Fin 2 \<and> (0::rat) < 2 \<and>
   (of_int 6 / 2 :: rat) < 2 ^ 200 \<and>
   extract_frames_video_cmd True (probed_clip ''/tmp/b.mp4'' (Some ''2.0'')) ''/tmp/b.mp4''
       ''out'' 6 ''raw'' =
     Inr [Arg ''ffmpeg'', Arg ''-i'', Arg ''/tmp/b.mp4'', Arg ''-vf'', FpsFilter (Fin 3),
          Arg ''-frames:v'', Count 6, Arg ''-y'', OutputPattern ''out'' ''raw''] \<and>
   get_media_info (probed_clip ''/tmp/c.mp4'' (Some ''100.0'')) =
     Inr (Some (clip_info ''/tmp/c.mp4'' 100 3000)) \<and>
   duration (clip_info ''/tmp/c.mp4'' 100 3000) = Fin 100 \<and> (0::rat) < 100 \<and>
   (of_int 6 / 100 :: rat) < 2 ^ 200 \<and>
   extract_frames_video_cmd True (probed_clip ''/tmp/c.mp4'' (Some ''100.0'')) ''/tmp/c.mp4''
       ''out'' 6 ''raw'' =
     Inr [Arg ''ffmpeg'', Arg ''-i'', Arg ''/tmp/c.mp4'', Arg ''-vf'',
          FpsFilter (Fin (3602879701896397 / 36028797018963968)),
          Arg ''-frames:v'', Count 6, Arg ''-y'', OutputPattern ''out'' ''raw'']"
proof -
  have n: "(1::int) \<le> 6" "(6::int) < 2 ^ 53" by simp_all
  have ia: "get_media_info (probed_clip ''/tmp/a.mkv'' None) =
      Inr (Some (clip_info ''/tmp/a.mkv'' 0 0))"
    by code_simp
  have la: "py_float_le (duration (clip_info ''/tmp/a.mkv'' 0 0)) (Fin 0)"
    by (simp add: py_float_le_def)
  from extract_frames_video_cmd_plan [OF ia n, of "''/tmp/a.mkv''" "''out''" "''raw''"] la
  have ca: "extract_frames_video_cmd True (probed_clip ''/tmp/a.mkv'' None) ''/tmp/a.mkv''
       ''out'' 6 ''raw'' =
     Inr [Arg ''ffmpeg'', Arg ''-i'', Arg ''/tmp/a.mkv'', Arg ''-vf'', SelectBelow 6,
          Arg ''-vsync'', Arg ''vfr'', Arg ''-frames:v'', Count 6, Arg ''-y'',
          OutputPattern ''out'' ''raw'']"
    by blast
  have ib: "get_media_info (probed_clip ''/tmp/b.mp4'' (Some ''2.0'')) =
      Inr (Some (clip_info ''/tmp/b.mp4'' 2 60))"
    by code_simp
  have db: "duration (clip_info ''/tmp/b.mp4'' 2 60) = Fin 2 \<and> (0::rat) < 2 \<and>
      (of_int 6 / 2 :: rat) < 2 ^ 200"
    by simp
  have mb: "max (round_binary64 (1 / 10)) (round_binary64 (of_int 6 / 2)) = (3::rat)"
    by (simp add: round_binary64_tenth round_binary64_numeral)
  from extract_frames_video_cmd_plan [OF ib n, of "''/tmp/b.mp4''" "''out''" "''raw''"] db
  have "extract_frames_video_cmd True (probed_clip ''/tmp/b.mp4'' (Some ''2.0''))
       ''/tmp/b.mp4'' ''out'' 6 ''raw'' =
     Inr [Arg ''ffmpeg'', Arg ''-i'', Arg ''/tmp/b.mp4'', Arg ''-vf'',
          FpsFilter (Fin (max (round_binary64 (1 / 10)) (round_binary64 (of_int 6 / 2)))),
          Arg ''-frames:v'', Count 6, Arg ''-y'', OutputPattern ''out'' ''raw'']"
    by blast
  then have cb: "extract_frames_video_cmd True (probed_clip ''/tmp/b.mp4'' (Some ''2.0''))
       ''/tmp/b.mp4'' ''out'' 6 ''raw'' =
     Inr [Arg ''ffmpeg'', Arg ''-i'', Arg ''/tmp/b.mp4'', Arg ''-vf'', FpsFilter (Fin 3),
          Arg ''-frames:v'', Count 6, Arg ''-y'', OutputPattern ''out'' ''raw'']"
    by (simp only: mb)
  have ic: "get_media_info (probed_clip ''/tmp/c.mp4'' (Some ''100.0'')) =
      Inr (Some (clip_info ''/tmp/c.mp4'' 100 3000))"
    by code_simp
  have dc: "duration (clip_info ''/tmp/c.mp4'' 100 3000) = Fin 100 \<and> (0::rat) < 100 \<and>
      (of_int 6 / 100 :: rat) < 2 ^ 200"
    by simp
  have sixty: "round_binary64 (of_int 6 / 100) = 1080863910568919 / 18014398509481984"
    by (simp add: round_binary64_eqI [where e = "- 5" and k = 8646911284551352])
  have mc: "max (round_binary64 (1 / 10)) (round_binary64 (of_int 6 / 100)) =
      (3602879701896397 / 36028797018963968 :: rat)"
    by (simp only: sixty round_binary64_tenth)
  from extract_frames_video_cmd_plan [OF ic n, of "''/tmp/c.mp4''" "''out''" "''raw''"] dc
  have "extract_frames_video_cmd True (probed_clip ''/tmp/c.mp4'' (Some ''100.0''))
       ''/tmp/c.mp4'' ''out'' 6 ''raw'' =
     Inr [Arg ''ffmpeg'', Arg ''-i'', Arg ''/tmp/c.mp4'', Arg ''-vf'',
          FpsFilter (Fin (max (round_binary64 (1 / 10)) (round_binary64 (of_int 6 / 100)))),
          Arg ''-frames:v'', Count 6, Arg ''-y'', OutputPattern ''out'' ''raw'']"
    by blast
  then have cc: "extract_frames_video_cmd True (probed_clip ''/tmp/c.mp4'' (Some ''100.0''))
       ''/tmp/c.mp4'' ''out'' 6 ''raw'' =
     Inr [Arg ''ffmpeg'', Arg ''-i'', Arg ''/tmp/c.mp4'', Arg ''-vf'',
          FpsFilter (Fin (3602879701896397 / 36028797018963968)),
          Arg ''-frames:v'', Count 6, Arg ''-y'', OutputPattern ''out'' ''raw'']"
    by (simp only: mc)
  from ia n la ca ib db cb ic dc cc show ?thesis by (intro conjI) simp_all
qed

subsection \<open>Probing with the external tool\<close>





lemma probe_nb_frames_absent_or_zero:
  "probe_nb_frames vs = Inr 0 \<longleftrightarrow>
     stream_nb_frames vs = None \<or> (\<exists>s. stream_nb_frames vs = Some s \<and> py_int_of_str s = Some 0)"
  by (auto simp: probe_nb_frames_def int_field_def split: option.splits)

text \<open>
  C2, as stated, fails.  For a stream of 0.06 seconds at 30/1 frames per second with no
  frame count, the product is the float 1.7999999999999998 and the frame count returned is
  1, while the product rounded to the nearest integer is 2.
\<close>

theorem get_media_info_round_counterexample:
  "get_media_info (probed_clip ''/tmp/c.mp4'' (Some ''0.06'')) =
     Inr (Some (clip_info ''/tmp/c.mp4'' (1080863910568919 / 18014398509481984) 1)) \<and>
   round ((1080863910568919 / 18014398509481984 :: rat) * 30) = 2"
proof
  show "get_media_info (probed_clip ''/tmp/c.mp4'' (Some ''0.06'')) =
     Inr (Some (clip_info ''/tmp/c.mp4'' (1080863910568919 / 18014398509481984) 1))"
    by code_simp
  show "round ((1080863910568919 / 18014398509481984 :: rat) * 30) = 2"
    by code_simp
qed

text \<open>
  C2, amended.  In the branch of the probing tool, whenever the frame count of the stream
  is absent or zero, the duration is greater than 0 and the product of duration and frame
  rate is finite, the returned frame count is \<^verbatim>\<open>int(duration * fps)\<close>: the float product
  truncated toward zero.
\<close>

theorem get_media_info_frame_count_truncates:
  assumes "path_exists env" "pil_branch env = None" "run_ffprobe env = Some probe"
    and "find (\<lambda>s. stream_codec_type s = Some ''video'') (streams probe) = Some vs"
    and "stream_nb_frames vs = None \<or>
         (\<exists>s. stream_nb_frames vs = Some s \<and> py_int_of_str s = Some 0)"
    and "probe_duration probe vs = Inr d" "py_float_gt d (Fin 0)"
    and "py_float_mul d (probe_fps vs) = Fin x"
  shows "\<exists>info. get_media_info env = Inr (Some info) \<and> duration info = d \<and>
           fps info = probe_fps vs \<and>
           frame_count info = (if 0 \<le> x then \<lfloor>x\<rfloor> else \<lceil>x\<rceil>)"
proof -
  from assms(5) have "probe_nb_frames vs = Inr 0"
    by (simp only: probe_nb_frames_absent_or_zero)
  with assms(1-4,6-8) show ?thesis
    by (simp add: get_media_info_def media_info_stream_def Let_def trunc_rat_def)
qed

theorem get_media_info_frame_count_truncates_witness:
  "path_exists (probed_clip ''/tmp/c.mp4'' (Some ''0.06'')) \<and>
   pil_branch (probed_clip ''/tmp/c.mp4'' (Some ''0.06'')) = None \<and>
   stream_nb_frames (video_stream_of (Some ''0.06'')) = None \<and>
   probe_duration \<lparr>streams = [video_stream_of (Some ''0.06'')], format_duration = None\<rparr>
     (video_stream_of (Some ''0.06'')) = Inr (Fin (1080863910568919 / 18014398509481984)) \<and>
   py_float_gt (Fin (1080863910568919 / 18014398509481984)) (Fin 0) \<and>
   py_float_mul (Fin (1080863910568919 / 18014398509481984))
     (probe_fps (video_stream_of (Some ''0.06''))) =
     Fin (2026619832316723 / 1125899906842624) \<and>
   (\<exists>info. get_media_info (probed_clip ''/tmp/c.mp4'' (Some ''0.06'')) = Inr (Some info) \<and>
      frame_count info = 1)"
proof -
  have e: "path_exists (probed_clip ''/tmp/c.mp4'' (Some ''0.06''))" by simp
  have p: "pil_branch (probed_clip ''/tmp/c.mp4'' (Some ''0.06'')) = None"
    by (simp add: pil_branch_def)
  have r: "run_ffprobe (probed_clip ''/tmp/c.mp4'' (Some ''0.06'')) =
      Some \<lparr>streams = [video_stream_of (Some ''0.06'')], format_duration = None\<rparr>"
    by simp
  have f: "find (\<lambda>s. stream_codec_type s = Some ''video'')
       (streams \<lparr>streams = [video_stream_of (Some ''0.06'')], format_duration = None\<rparr>) =
      Some (video_stream_of (Some ''0.06''))"
    by simp
  have nb: "stream_nb_frames (video_stream_of (Some ''0.06'')) = None" by simp
  have nb': "stream_nb_frames (video_stream_of (Some ''0.06'')) = None \<or>
      (\<exists>s. stream_nb_frames (video_stream_of (Some ''0.06'')) = Some s \<and>
           py_int_of_str s = Some 0)"
    by simp
  have d: "probe_duration \<lparr>streams = [video_stream_of (Some ''0.06'')], format_duration = None\<rparr>
     (video_stream_of (Some ''0.06'')) = Inr (Fin (1080863910568919 / 18014398509481984))"
    by code_simp
  have g: "py_float_gt (Fin (1080863910568919 / 18014398509481984)) (Fin 0)" by simp
  have m: "py_float_mul (Fin (1080863910568919 / 18014398509481984))
     (probe_fps (video_stream_of (Some ''0.06''))) =
     Fin (2026619832316723 / 1125899906842624)"
    by code_simp
  have fl: "\<lfloor>(2026619832316723 / 1125899906842624 :: rat)\<rfloor> = 1" by code_simp
  from get_media_info_frame_count_truncates [OF e p r f nb' d g m] fl
  have "\<exists>info. get_media_info (probed_clip ''/tmp/c.mp4'' (Some ''0.06'')) = Inr (Some info) \<and>
      frame_count info = 1"
    by auto
  with e p nb d g m show ?thesis by (intro conjI)
qed



end
